theory Spec2Isabelle
  imports Main
begin

section \<open>JavaScript strings\<close>

text \<open>
  A JavaScript string is modelled as a \<open>string\<close>: one \<open>char\<close> per code unit.
  The characters that the plugin and \<open>String.prototype.replace\<close> treat specially are named.
\<close>

definition dquote :: char where
  "dquote = CHR 0x22"

definition squote :: char where
  "squote = CHR 0x27"

definition backslash :: char where
  "backslash = CHR 0x5C"

definition backtick :: char where
  "backtick = CHR 0x60"

definition dollar :: char where
  "dollar = CHR 0x24"

text \<open>\<open>startsWith t m\<close>: the text \<open>t\<close> begins with \<open>m\<close>.\<close>

definition startsWith :: "string \<Rightarrow> string \<Rightarrow> bool" where
  "startsWith t m = (take (length m) t = m)"

text \<open>
  \<open>String.prototype.indexOf\<close> from position 0: the least index at which the search
  string occurs, \<open>None\<close> for JavaScript's \<open>-1\<close>.
\<close>

fun indexOf :: "string \<Rightarrow> string \<Rightarrow> nat option" where
  "indexOf [] m = (if m = [] then Some 0 else None)"
| "indexOf (c # cs) m =
     (if startsWith (c # cs) m then Some 0 else map_option Suc (indexOf cs m))"

text \<open>
  \<open>GetSubstitution\<close> of ECMAScript for a call with a string pattern: there are no
  captures and no named groups, so \<open>$$\<close>, \<open>$&\<close>, \<open>$`\<close> and \<open>$'\<close> are the
  references that expand, while \<open>$\<close> before a digit, before \<open><\<close> or before anything else
  stays as it is.
\<close>

fun getSubstitution :: "string \<Rightarrow> string \<Rightarrow> nat \<Rightarrow> string \<Rightarrow> string" where
  "getSubstitution matched str position [] = []"
| "getSubstitution matched str position [c] = [c]"
| "getSubstitution matched str position (c # d # rest) =
     (if c = dollar then
        (if d = dollar then dollar # getSubstitution matched str position rest
         else if d = backtick then take position str @ getSubstitution matched str position rest
         else if d = CHR ''&'' then matched @ getSubstitution matched str position rest
         else if d = squote then
           drop (min (position + length matched) (length str)) str
             @ getSubstitution matched str position rest
         else dollar # getSubstitution matched str position (d # rest))
      else c # getSubstitution matched str position (d # rest))"

text \<open>
  \<open>String.prototype.replace(searchString, replaceValue)\<close> with two strings: only the
  first occurrence is replaced, and the replacement is the expansion of the template.
\<close>

definition stringReplace :: "string \<Rightarrow> string \<Rightarrow> string \<Rightarrow> string" where
  "stringReplace str searchString replaceValue =
     (case indexOf str searchString of
        None \<Rightarrow> str
      | Some position \<Rightarrow>
          take position str
            @ getSubstitution searchString str position replaceValue
            @ drop (position + length searchString) str)"

text \<open>
  \<open>manifestString.replace(/"/g, `'`)\<close>: the replacement holds no \<open>$\<close>, so every double
  quote becomes one single quote and nothing else changes.
\<close>

definition replaceDoubleQuotes :: "string \<Rightarrow> string" where
  "replaceDoubleQuotes s = map (\<lambda>c. if c = dquote then squote else c) s"

section \<open>The injection point as a regular expression\<close>

text \<open>The syntax characters of an ECMAScript pattern.\<close>

definition syntaxCharacters :: "char list" where
  "syntaxCharacters =
     [CHR ''.'', CHR ''*'', CHR ''+'', CHR ''?'', CHR ''^'', dollar, CHR ''{'', CHR ''}'',
      CHR ''('', CHR '')'', CHR ''|'', CHR ''['', CHR '']'', backslash]"

text \<open>
  Modelled from the spec: \<open>escapeRegExp\<close> of workbox-build (imported at line 9, its file
  is not among the sources). The spec has the characters with a special meaning in a
  pattern escaped before searching: a backslash is put before each syntax character.
\<close>

fun escapeRegExp :: "string \<Rightarrow> string" where
  "escapeRegExp [] = []"
| "escapeRegExp (c # cs) =
     (if c \<in> set syntaxCharacters then backslash # c # escapeRegExp cs
      else c # escapeRegExp cs)"

text \<open>
  The pattern sources read here are the ones made of pattern characters and of escaped
  syntax characters (an identity escape): such a source denotes the literal text it
  spells. Any other source is outside this fragment (\<open>None\<close>).
\<close>

fun literalOfPattern :: "string \<Rightarrow> string option" where
  "literalOfPattern [] = Some []"
| "literalOfPattern [c] = (if c \<in> set syntaxCharacters then None else Some [c])"
| "literalOfPattern (c # d # cs) =
     (if c = backslash then
        (if d \<in> set syntaxCharacters then map_option ((#) d) (literalOfPattern cs) else None)
      else if c \<in> set syntaxCharacters then None
      else map_option ((#) c) (literalOfPattern (d # cs)))"

text \<open>
  \<open>String.prototype.match\<close> with a global regular expression for a literal text: the
  scan starts at index 0, takes the leftmost match at or after \<open>lastIndex\<close>, and goes on
  from the end of the match (one further after an empty match). The result is the list
  of the matched texts; JavaScript returns \<open>null\<close> for the empty list.
\<close>

function globalMatches :: "string \<Rightarrow> string \<Rightarrow> string list" where
  "globalMatches m [] = (if m = [] then [[]] else [])"
| "globalMatches m (c # cs) =
     (if startsWith (c # cs) m then m # globalMatches m (drop (length m - 1) cs)
      else globalMatches m cs)"
  by pat_completeness auto
termination
  by (relation "measure (\<lambda>(m, t). length t)") auto

text \<open>The positions at which a text holds the marker, overlapping ones included.\<close>

definition occurrences :: "string \<Rightarrow> string \<Rightarrow> nat list" where
  "occurrences m t = filter (\<lambda>i. startsWith (drop i t) m) [0..<Suc (length t)]"

section \<open>The data of the plugin and of its host\<close>

text \<open>
  A value thrown, or held in a diagnostics list of the build. The first three are
  instances of \<open>Error\<close> (\<open>WebpackError\<close> extends it); the last stands for any other value.
\<close>

datatype js_error =
  Error string
| TypeError string
| WebpackError string
| NonError string

fun instanceofError :: "js_error \<Rightarrow> bool" where
  "instanceofError (NonError _) = False"
| "instanceofError _ = True"

fun message :: "js_error \<Rightarrow> string" where
  "message (Error m) = m"
| "message (TypeError m) = m"
| "message (WebpackError m) = m"
| "message (NonError m) = m"

datatype outcome = Resolved | Rejected js_error

text \<open>
  An entry of an \<open>exclude\<close> array: a specifier the user configured (a string, a regular
  expression or a function, opaque here), or the closure
  \<open>(name) => _generatedAssetNames.has(name)\<close> that \<open>addAssets\<close> pushes. The closure
  reads the set when it is called, so its body takes the set as it is then.
\<close>

datatype condition = Specifier string | IsGeneratedAssetName


type_synonym ref = nat

datatype plugin = Plugin string

text \<open>
  The configuration object. \<open>exclude\<close> is a reference to an array in the store of the
  process: copying the object copies the reference, not the array. \<open>compileSrc\<close> is
  read for its truthiness only. \<open>None\<close> is \<open>undefined\<close>.
\<close>

record config =
  swSrc :: string
  swDest :: string
  injectionPoint :: "string option"
  compileSrc :: bool
  exclude :: "ref option"
  webpackCompilationPlugins :: "plugin list option"

text \<open>
  What all instances share in one process: the module-level set
  \<open>_generatedAssetNames\<close>, and the store of the \<open>exclude\<close> arrays.
\<close>

record process =
  generatedAssetNames :: "string set"
  arrays :: "ref \<Rightarrow> condition list"

record injectManifest =
  config :: config
  alreadyCalled :: bool

record optimizationOptions =
  minimize :: bool

record webpackOptions =
  devtool :: "string option"
  optimization :: "optimizationOptions option"

text \<open>
  The compilation of the outer build: its diagnostics, its asset store (name to
  source text), its file dependencies, its options, and the messages logged through
  \<open>getLogger\<close> when the host has one (destination, number of entries, size).
\<close>

record compilation =
  warnings :: "js_error list"
  errors :: "js_error list"
  assets :: "string \<rightharpoonup> string"
  fileDependencies :: "string set"
  options :: "webpackOptions option"
  infoLog :: "(string \<times> nat \<times> nat) list option"

record compiler =
  compilerContext :: string
  readFileSync :: "string \<Rightarrow> js_error + string"
  outputFileSystem :: nat
  outputPath :: "string option"

record childCompiler =
  childName :: string
  childOutputPath :: "string option"
  childFilename :: string
  childContext :: string
  childReadFileSync :: "string \<Rightarrow> js_error + string"
  childOutputFileSystem :: nat
  appliedPlugins :: "plugin list"
  entryPlugin :: "(string \<times> string \<times> string) option"

record childCompilation =
  childWarnings :: "js_error list"
  childErrors :: "js_error list"
  childAssets :: "(string \<times> string) list"

record manifestEntry =
  url :: string
  revision :: "string option"

text \<open>
  The functions the plugin imports and the host tool's child build, none of them among
  the sources: they are parameters. Validation may allocate the default \<open>exclude\<close>
  array, so it takes and returns the store. The entry computation is handed the
  compilation and the copied configuration, and evaluates the conditions in the state
  of the process at that moment; it may push warnings of its own to the warnings of
  the compilation, so it returns them (first component) beside its result. \<open>replaceAndUpdateSourceMap\<close> takes the file name, the
  text of the original map (parsing it is part of the parameter), the original source,
  the replacement and the search string (\<open>config.injectionPoint\<close>, as it is).
\<close>

record host =
  validateWebpackInjectManifestOptions ::
    "(ref \<Rightarrow> condition list) \<Rightarrow> config \<Rightarrow> string + ((ref \<Rightarrow> condition list) \<times> config)"
  relativeToOutputPath :: "compilation \<Rightarrow> string \<Rightarrow> string"
  upathResolve :: "string \<Rightarrow> string"
  getManifestEntriesFromCompilation ::
    "process \<Rightarrow> compilation \<Rightarrow> config
       \<Rightarrow> js_error list \<times> (js_error + (nat \<times> manifestEntry list))"
  stringify :: "manifestEntry list \<Rightarrow> string"
  getSourcemapAssetName :: "compilation \<Rightarrow> string \<Rightarrow> string \<Rightarrow> string option"
  replaceAndUpdateSourceMap ::
    "string \<Rightarrow> string \<Rightarrow> string \<Rightarrow> string \<Rightarrow> string option
       \<Rightarrow> js_error + (string \<times> string)"
  runAsChild :: "childCompiler \<Rightarrow> js_error + childCompilation option"

section \<open>The plugin\<close>

definition constructorName :: string where
  "constructorName = ''InjectManifest''"

text \<open>The constructor (lines 132 to 135).\<close>

definition newInjectManifest :: "config \<Rightarrow> injectManifest" where
  "newInjectManifest c = \<lparr>config = c, alreadyCalled = False\<rparr>"




text \<open>
  The asset store of the host. Emitting sets the source of a name; when the name
  already holds a different source, the host also pushes a conflict error to the errors
  of the compilation. Updating sets the source of a name.
\<close>

definition conflictMessage :: "string \<Rightarrow> string" where
  "conflictMessage name =
     ''Conflict: Multiple assets emit different content to the same filename '' @ name"

definition emitConflicts :: "compilation \<Rightarrow> string \<Rightarrow> string \<Rightarrow> js_error list" where
  "emitConflicts c name source =
     (case assets c name of
        None \<Rightarrow> []
      | Some old \<Rightarrow> if old = source then [] else [WebpackError (conflictMessage name)])"

fun isConflictError :: "js_error \<Rightarrow> bool" where
  "isConflictError (WebpackError m) =
     startsWith m ''Conflict: Multiple assets emit different content to the same filename ''"
| "isConflictError _ = False"

definition emitAsset :: "compilation \<Rightarrow> string \<Rightarrow> string \<Rightarrow> compilation" where
  "emitAsset c name source =
     c\<lparr>errors := errors c @ emitConflicts c name source,
       assets := (assets c)(name \<mapsto> source)\<rparr>"

definition updateAsset :: "compilation \<Rightarrow> string \<Rightarrow> string \<Rightarrow> compilation" where
  "updateAsset c name source = c\<lparr>assets := (assets c)(name \<mapsto> source)\<rparr>"

subsection \<open>performChildCompilation (lines 211 to 257)\<close>

text \<open>
  The child compiler is created with the output options, takes the context and the file
  systems of the parent, has the configured plugins applied in order (when the option is
  an array) and then the entry plugin for \<open>swSrc\<close>.
\<close>

definition makeChildCompiler :: "injectManifest \<Rightarrow> compiler \<Rightarrow> childCompiler" where
  "makeChildCompiler this parentCompiler =
     \<lparr>childName = constructorName,
      childOutputPath = outputPath parentCompiler,
      childFilename = swDest (config this),
      childContext = compilerContext parentCompiler,
      childReadFileSync = readFileSync parentCompiler,
      childOutputFileSystem = outputFileSystem parentCompiler,
      appliedPlugins =
        (case webpackCompilationPlugins (config this) of None \<Rightarrow> [] | Some ps \<Rightarrow> ps),
      entryPlugin =
        Some (compilerContext parentCompiler, swSrc (config this), constructorName)\<rparr>"

text \<open>
  \<open>childCompilation?.warnings ?? []\<close> and \<open>childCompilation?.errors ?? []\<close>.
\<close>

definition warningsOrEmpty :: "childCompilation option \<Rightarrow> js_error list" where
  "warningsOrEmpty cc = (case cc of None \<Rightarrow> [] | Some x \<Rightarrow> childWarnings x)"

definition errorsOrEmpty :: "childCompilation option \<Rightarrow> js_error list" where
  "errorsOrEmpty cc = (case cc of None \<Rightarrow> [] | Some x \<Rightarrow> childErrors x)"

text \<open>
  The host's \<open>runAsChild\<close> puts the assets of a finished child build into the parent
  compilation before it calls back.
\<close>

definition emitChildAssets :: "compilation \<Rightarrow> childCompilation option \<Rightarrow> compilation" where
  "emitChildAssets c cc =
     (case cc of
        None \<Rightarrow> c
      | Some x \<Rightarrow> foldl (\<lambda>acc (name, source). emitAsset acc name source) c (childAssets x))"

definition performChildCompilation ::
  "host \<Rightarrow> injectManifest \<Rightarrow> compilation \<Rightarrow> compiler \<Rightarrow> outcome \<times> compilation" where
  "performChildCompilation h this c parentCompiler =
     (case runAsChild h (makeChildCompiler this parentCompiler) of
        Inl error \<Rightarrow> (Rejected error, c)
      | Inr cc \<Rightarrow>
          (let c1 = emitChildAssets c cc;
               c2 = c1\<lparr>warnings := warnings c1 @ warningsOrEmpty cc\<rparr>;
               c3 = c2\<lparr>errors := errors c2 @ errorsOrEmpty cc\<rparr>
           in (Resolved, c3)))"

subsection \<open>addSrcToAssets (lines 265 to 271)\<close>

definition addSrcToAssets ::
  "injectManifest \<Rightarrow> compilation \<Rightarrow> compiler \<Rightarrow> js_error + compilation" where
  "addSrcToAssets this c parentCompiler =
     (case readFileSync parentCompiler (swSrc (config this)) of
        Inl error \<Rightarrow> Inl error
      | Inr source \<Rightarrow> Inr (emitAsset c (swDest (config this)) source))"

subsection \<open>handleMake (lines 279 to 315)\<close>

definition ignoredPluginsWarning :: js_error where
  "ignoredPluginsWarning =
     WebpackError
       (''compileSrc is false, so the '' @ ''webpackCompilationPlugins option will be ignored.'')"

text \<open>
  \<open>Array.isArray(plugins) && plugins.length > 0\<close>.
\<close>

definition nonEmptyArray :: "plugin list option \<Rightarrow> bool" where
  "nonEmptyArray ps = (case ps of None \<Rightarrow> False | Some xs \<Rightarrow> 0 < length xs)"

definition handleMake ::
  "host \<Rightarrow> process \<Rightarrow> injectManifest \<Rightarrow> compilation \<Rightarrow> compiler
     \<Rightarrow> outcome \<times> process \<times> injectManifest \<times> compilation" where
  "handleMake h p this c parentCompiler =
     (case validateWebpackInjectManifestOptions h (arrays p) (config this) of
        Inl msg \<Rightarrow>
          (Rejected
             (Error (''Please check your '' @ constructorName @ '' plugin ''
                       @ ''configuration:'' @ [CHR 0x0A] @ msg)),
           p, this, c)
      | Inr (store, validated) \<Rightarrow>
          (let dest = relativeToOutputPath h c (swDest validated);
               this1 = this\<lparr>config := validated\<lparr>swDest := dest\<rparr>\<rparr>;
               p1 = p\<lparr>arrays := store,
                      generatedAssetNames := insert dest (generatedAssetNames p)\<rparr>
           in if compileSrc (config this1) then
                (case performChildCompilation h this1 c parentCompiler of
                   (out, c1) \<Rightarrow> (out, p1, this1, c1))
              else
                (case addSrcToAssets this1 c parentCompiler of
                   Inl error \<Rightarrow> (Rejected error, p1, this1, c)
                 | Inr c1 \<Rightarrow>
                     (Resolved, p1, this1,
                      if nonEmptyArray (webpackCompilationPlugins (config this1))
                      then c1\<lparr>warnings := warnings c1 @ [ignoredPluginsWarning]\<rparr>
                      else c1))))"

subsection \<open>addAssets (lines 322 to 431)\<close>

definition warningMessage :: string where
  "warningMessage =
     constructorName @ '' has been called ''
       @ ''multiple times, perhaps due to running webpack in --watch mode. The ''
       @ ''precache manifest generated after the first call may be inaccurate! ''
       @ ''Please see https://github.com/GoogleChrome/workbox/issues/1790 for ''
       @ ''more information.''"

text \<open>
  Lines 324 to 342: on a repeated call, the warning is pushed unless the warnings of
  this compilation already hold an \<open>Error\<close> with that message; on the first call the
  flag is set.
\<close>

definition checkAlreadyCalled ::
  "injectManifest \<Rightarrow> compilation \<Rightarrow> injectManifest \<times> compilation" where
  "checkAlreadyCalled this c =
     (if alreadyCalled this then
        (this,
         if \<not> list_ex (\<lambda>warning. instanceofError warning \<and> message warning = warningMessage)
                (warnings c)
         then c\<lparr>warnings := warnings c @ [WebpackError warningMessage]\<rparr>
         else c)
      else (this\<lparr>alreadyCalled := True\<rparr>, c))"

text \<open>
  Lines 344 to 348. \<open>Object.assign({}, this.config)\<close> is a new object with the fields of
  \<open>this.config\<close>: as a value it is the same record, and its \<open>exclude\<close> is the same
  reference. The push goes to the array behind that reference; on \<open>undefined\<close> it
  throws.
\<close>

definition pushExclude :: "process \<Rightarrow> config \<Rightarrow> js_error + process" where
  "pushExclude p cfg =
     (case exclude cfg of
        None \<Rightarrow> Inl (TypeError ''Cannot read properties of undefined (reading 'push')'')
      | Some r \<Rightarrow> Inr (p\<lparr>arrays := (arrays p)(r := arrays p r @ [IsGeneratedAssetName])\<rparr>))"

definition cantFindMessage :: "string \<Rightarrow> string" where
  "cantFindMessage marker = ''Can't find '' @ marker @ '' in your SW source.''"

definition multipleInstancesMessage :: "string \<Rightarrow> string" where
  "multipleInstancesMessage marker =
     ''Multiple instances of '' @ marker @ '' were ''
       @ ''found in your SW source. Include it only once. For more info, see ''
       @ ''https://github.com/GoogleChrome/workbox/issues/2681''"

text \<open>
  Lines 357 to 371: the thrown error, if any. The regular expression is built from the
  escaped marker; the escaped source always denotes a literal (lemma
  \<open>literalOfPattern_escapeRegExp\<close> below), so the last case is never taken.
\<close>

definition checkInjectionPoint :: "string option \<Rightarrow> string \<Rightarrow> js_error option" where
  "checkInjectionPoint marker swAssetString =
     (case marker of
        None \<Rightarrow> Some (TypeError ''Cannot read properties of undefined (reading 'replace')'')
      | Some m \<Rightarrow>
          (case literalOfPattern (escapeRegExp m) of
             Some lit \<Rightarrow>
               (let injectionResults = globalMatches lit swAssetString
                in if injectionResults = [] then Some (Error (cantFindMessage m))
                   else if length injectionResults \<noteq> 1
                     then Some (Error (multipleInstancesMessage m))
                   else None)
           | None \<Rightarrow> Some (Error ''Invalid regular expression'')))"

text \<open>
  Lines 322 to 371, up to the call of the entry computation: either the error thrown,
  or the state in which \<open>getManifestEntriesFromCompilation(compilation, config)\<close> is
  called, with the text of the destination asset.
\<close>

definition addAssetsBeforeEntries ::
  "host \<Rightarrow> process \<Rightarrow> injectManifest \<Rightarrow> compilation
     \<Rightarrow> (js_error \<times> process \<times> injectManifest \<times> compilation)
        + (process \<times> injectManifest \<times> compilation \<times> string)" where
  "addAssetsBeforeEntries h p this c =
     (case checkAlreadyCalled this c of
        (this1, c1) \<Rightarrow>
          (case pushExclude p (config this1) of
             Inl error \<Rightarrow> Inl (error, p, this1, c1)
           | Inr p1 \<Rightarrow>
               (let absoluteSwSrc = upathResolve h (swSrc (config this1));
                    c2 = c1\<lparr>fileDependencies := insert absoluteSwSrc (fileDependencies c1)\<rparr>
                in case assets c2 (swDest (config this1)) of
                     None \<Rightarrow>
                       Inl (TypeError ''Cannot read properties of undefined (reading 'source')'',
                            p1, this1, c2)
                   | Some swAssetString \<Rightarrow>
                       (case checkInjectionPoint (injectionPoint (config this1)) swAssetString of
                          Some error \<Rightarrow> Inl (error, p1, this1, c2)
                        | None \<Rightarrow> Inr (p1, this1, c2, swAssetString)))))"

text \<open>Lines 379 to 389: the condition under which the quotes are rewritten.\<close>

definition evalCheapSourceMapAndMinimize :: "compilation \<Rightarrow> bool" where
  "evalCheapSourceMapAndMinimize c =
     (case options c of
        None \<Rightarrow> False
      | Some opts \<Rightarrow>
          devtool opts = Some ''eval-cheap-source-map''
          \<and> (case optimization opts of None \<Rightarrow> False | Some opt \<Rightarrow> minimize opt))"

definition rewritesQuotes :: "injectManifest \<Rightarrow> compilation \<Rightarrow> bool" where
  "rewritesQuotes this c = (compileSrc (config this) \<and> \<not> evalCheapSourceMapAndMinimize c)"

text \<open>Lines 378 to 392: the serialized manifest.\<close>

definition manifestStringOf ::
  "host \<Rightarrow> injectManifest \<Rightarrow> compilation \<Rightarrow> manifestEntry list \<Rightarrow> string" where
  "manifestStringOf h this c sortedEntries =
     (if rewritesQuotes this c then replaceDoubleQuotes (stringify h sortedEntries)
      else stringify h sortedEntries)"

text \<open>
  Lines 394 to 424: with a source map the name of the map is registered, the map asset
  is read, and both assets are updated from \<open>replaceAndUpdateSourceMap\<close>; without one
  the marker is replaced by \<open>String.prototype.replace\<close>, which reads its search value
  as a string (\<open>searchValueString\<close>; the marker is a string whenever line 357 has not
  thrown).
\<close>

definition searchValueString :: "string option \<Rightarrow> string" where
  "searchValueString v = (case v of None \<Rightarrow> ''undefined'' | Some s \<Rightarrow> s)"

definition injectManifestString ::
  "host \<Rightarrow> process \<Rightarrow> compilation \<Rightarrow> config \<Rightarrow> string \<Rightarrow> string
     \<Rightarrow> outcome \<times> process \<times> compilation" where
  "injectManifestString h p c cfg swAssetString manifestString =
     (case getSourcemapAssetName h c swAssetString (swDest cfg) of
        Some sourcemapAssetName \<Rightarrow>
          (let p1 = p\<lparr>generatedAssetNames :=
                        insert sourcemapAssetName (generatedAssetNames p)\<rparr>
           in case assets c sourcemapAssetName of
                None \<Rightarrow>
                  (Rejected (TypeError ''Cannot read properties of undefined (reading 'source')''),
                   p1, c)
              | Some originalMap \<Rightarrow>
                  (case replaceAndUpdateSourceMap h (swDest cfg) originalMap swAssetString
                          manifestString (injectionPoint cfg) of
                     Inl error \<Rightarrow> (Rejected error, p1, c)
                   | Inr (source, sourceMap) \<Rightarrow>
                       (Resolved, p1,
                        updateAsset (updateAsset c sourcemapAssetName sourceMap)
                          (swDest cfg) source)))
      | None \<Rightarrow>
          (Resolved, p,
           updateAsset c (swDest cfg)
             (stringReplace swAssetString (searchValueString (injectionPoint cfg))
                manifestString)))"

text \<open>Lines 426 to 430.\<close>

definition logInfo :: "compilation \<Rightarrow> string \<Rightarrow> nat \<Rightarrow> nat \<Rightarrow> compilation" where
  "logInfo c dest n totalSize =
     (case infoLog c of
        None \<Rightarrow> c
      | Some msgs \<Rightarrow> c\<lparr>infoLog := Some (msgs @ [(dest, n, totalSize)])\<rparr>)"

text \<open>Lines 378 to 431, once the entry computation has returned.\<close>

definition addAssetsAfterEntries ::
  "host \<Rightarrow> process \<Rightarrow> injectManifest \<Rightarrow> compilation \<Rightarrow> string \<Rightarrow> nat
     \<Rightarrow> manifestEntry list \<Rightarrow> outcome \<times> process \<times> injectManifest \<times> compilation" where
  "addAssetsAfterEntries h p this c swAssetString totalSize sortedEntries =
     (let manifestString = manifestStringOf h this c sortedEntries
      in case injectManifestString h p c (config this) swAssetString manifestString of
           (Rejected error, p2, c2) \<Rightarrow> (Rejected error, p2, this, c2)
         | (Resolved, p2, c2) \<Rightarrow>
             (Resolved, p2, this,
              logInfo c2 (swDest (config this)) (length sortedEntries) totalSize))"

definition addAssets ::
  "host \<Rightarrow> process \<Rightarrow> injectManifest \<Rightarrow> compilation
     \<Rightarrow> outcome \<times> process \<times> injectManifest \<times> compilation" where
  "addAssets h p this c =
     (case addAssetsBeforeEntries h p this c of
        Inl (error, p1, this1, c1) \<Rightarrow> (Rejected error, p1, this1, c1)
      | Inr (p1, this1, c1, swAssetString) \<Rightarrow>
          (case getManifestEntriesFromCompilation h p1 c1 (config this1) of
             (pushed, result) \<Rightarrow>
               (let c2 = c1\<lparr>warnings := warnings c1 @ pushed\<rparr>
                in case result of
                     Inl error \<Rightarrow> (Rejected error, p1, this1, c2)
                   | Inr (totalSize, sortedEntries) \<Rightarrow>
                       addAssetsAfterEntries h p1 this1 c2 swAssetString totalSize
                         sortedEntries)))"

section \<open>Notions used in the properties\<close>

text \<open>The four parts of what \<open>handleMake\<close> and \<open>addAssets\<close> leave behind.\<close>

definition outcomeOf :: "outcome \<times> process \<times> injectManifest \<times> compilation \<Rightarrow> outcome" where
  "outcomeOf r = fst r"

definition processOf :: "outcome \<times> process \<times> injectManifest \<times> compilation \<Rightarrow> process" where
  "processOf r = fst (snd r)"

definition instanceOf ::
  "outcome \<times> process \<times> injectManifest \<times> compilation \<Rightarrow> injectManifest" where
  "instanceOf r = fst (snd (snd r))"

definition compilationOf ::
  "outcome \<times> process \<times> injectManifest \<times> compilation \<Rightarrow> compilation" where
  "compilationOf r = snd (snd (snd r))"

text \<open>
  Two occurrences of the marker that do not overlap (after an empty marker the scan
  moves on by one).
\<close>

definition twoDisjointOccurrences :: "string \<Rightarrow> string \<Rightarrow> bool" where
  "twoDisjointOccurrences m t =
     (\<exists>i j. j \<le> length t \<and> startsWith (drop i t) m \<and> startsWith (drop j t) m
            \<and> i + max 1 (length m) \<le> j)"

text \<open>
  The warnings that the entry computation pushes in a call of \<open>addAssets\<close>: none when
  the call throws before it reaches line 373.
\<close>

definition entryWarnings ::
  "host \<Rightarrow> process \<Rightarrow> injectManifest \<Rightarrow> compilation \<Rightarrow> js_error list" where
  "entryWarnings h p this c =
     (case addAssetsBeforeEntries h p this c of
        Inl failed \<Rightarrow> []
      | Inr (p1, this1, c1, swAssetString) \<Rightarrow>
          fst (getManifestEntriesFromCompilation h p1 c1 (config this1)))"

text \<open>Whether a diagnostic is the repeated-call warning, as line 335 tests it.\<close>

definition isRepeatedCallWarning :: "js_error \<Rightarrow> bool" where
  "isRepeatedCallWarning warning = (instanceofError warning \<and> message warning = warningMessage)"

subsection \<open>An example build\<close>

text \<open>
  The serializer of the examples: JSON text with the keys of each entry sorted, as in
  the end-to-end scenario of the spec.
\<close>

definition hexDigit :: "nat \<Rightarrow> char" where
  "hexDigit n = ''0123456789abcdef'' ! n"

definition jsonEscape :: "char \<Rightarrow> string" where
  "jsonEscape c =
     (if c = dquote then [backslash, dquote]
      else if c = backslash then [backslash, backslash]
      else if c = CHR 0x08 then [backslash, CHR ''b'']
      else if c = CHR 0x09 then [backslash, CHR ''t'']
      else if c = CHR 0x0A then [backslash, CHR ''n'']
      else if c = CHR 0x0C then [backslash, CHR ''f'']
      else if c = CHR 0x0D then [backslash, CHR ''r'']
      else if (of_char c :: nat) < 32
        then [backslash, CHR ''u'', CHR ''0'', CHR ''0'',
              hexDigit (of_char c div 16), hexDigit (of_char c mod 16)]
      else [c])"

definition jsonString :: "string \<Rightarrow> string" where
  "jsonString s = dquote # concat (map jsonEscape s) @ [dquote]"

definition stringifyEntry :: "manifestEntry \<Rightarrow> string" where
  "stringifyEntry e =
     ''{'' @ jsonString ''revision'' @ '':''
       @ (case revision e of None \<Rightarrow> ''null'' | Some r \<Rightarrow> jsonString r)
       @ '','' @ jsonString ''url'' @ '':'' @ jsonString (url e) @ ''}''"

fun joinComma :: "string list \<Rightarrow> string" where
  "joinComma [] = []"
| "joinComma [x] = x"
| "joinComma (x # y # ys) = x @ '','' @ joinComma (y # ys)"

definition stringifyEntries :: "manifestEntry list \<Rightarrow> string" where
  "stringifyEntries es = ''['' @ joinComma (map stringifyEntry es) @ '']''"

text \<open>
  A host for the examples: validation accepts the configuration as it is, the
  destination is already relative to the output path, the entry computation returns the
  given entries, the source map of the destination asset has the given name (if any)
  and updating a source map is refused, and the child build returns no compilation.
\<close>

definition exampleHost :: "manifestEntry list \<Rightarrow> string option \<Rightarrow> host" where
  "exampleHost entries sourcemapAssetName =
     \<lparr>validateWebpackInjectManifestOptions = (\<lambda>store cfg. Inr (store, cfg)),
      relativeToOutputPath = (\<lambda>c dest. dest),
      upathResolve = (\<lambda>path. ''/project/'' @ path),
      getManifestEntriesFromCompilation = (\<lambda>p c cfg. ([], Inr (0, entries))),
      stringify = stringifyEntries,
      getSourcemapAssetName = (\<lambda>c swAssetString dest. sourcemapAssetName),
      replaceAndUpdateSourceMap =
        (\<lambda>jsFilename originalMap originalSource replaceString searchString.
           Inl (Error ''source maps are not updated in this example'')),
      runAsChild = (\<lambda>child. Inr None)\<rparr>"

definition exampleConfig :: config where
  "exampleConfig =
     \<lparr>swSrc = ''src/sw.js'', swDest = ''sw.js'',
      injectionPoint = Some ''self.__WB_MANIFEST'', compileSrc = True,
      exclude = Some 0, webpackCompilationPlugins = None\<rparr>"

definition exampleProcess :: process where
  "exampleProcess = \<lparr>generatedAssetNames = {}, arrays = (\<lambda>r. [])\<rparr>"

text \<open>A compilation whose only asset is \<open>sw.js\<close> with the given text.\<close>

definition exampleCompilation :: "string \<Rightarrow> compilation" where
  "exampleCompilation swText =
     \<lparr>warnings = [], errors = [], assets = [''sw.js'' \<mapsto> swText],
      fileDependencies = {}, options = None, infoLog = None\<rparr>"

definition exampleCompiler :: compiler where
  "exampleCompiler =
     \<lparr>compilerContext = ''/project'',
      readFileSync =
        (\<lambda>path. if path = ''src/sw.js'' then Inr ''self.__WB_MANIFEST''
                else Inl (Error ''ENOENT'')),
      outputFileSystem = 0,
      outputPath = Some ''/project/dist''\<rparr>"

text \<open>
  The example in watch mode: one instance, and a fresh compilation for every rebuild.
  \<open>exampleWatch n\<close> is what the call of \<open>addAssets\<close> in rebuild \<open>n\<close> leaves behind.
\<close>

fun exampleWatch :: "nat \<Rightarrow> outcome \<times> process \<times> injectManifest \<times> compilation" where
  "exampleWatch 0 =
     addAssets (exampleHost [] None) exampleProcess (newInjectManifest exampleConfig)
       (exampleCompilation ''self.__WB_MANIFEST'')"
| "exampleWatch (Suc n) =
     addAssets (exampleHost [] None) (processOf (exampleWatch n)) (instanceOf (exampleWatch n))
       (exampleCompilation ''self.__WB_MANIFEST'')"

section \<open>Properties of the string functions\<close>

lemma startsWith_Nil [simp]: "startsWith t []"
  by (simp add: startsWith_def)

lemma startsWith_length: "startsWith t m \<Longrightarrow> length m \<le> length t"
proof -
  assume "startsWith t m"
  then have "length (take (length m) t) = length m" by (simp only: startsWith_def)
  then show ?thesis by simp
qed

lemma occurrences_Nil: "occurrences m [] = (if m = [] then [0] else [])"
  by (simp add: occurrences_def startsWith_def)

lemma upt_shift: "[0..<Suc (Suc n)] = 0 # map Suc [0..<Suc n]"
  by (simp only: map_Suc_upt upt_conv_Cons[of 0 "Suc (Suc n)"])

lemma occurrences_Cons:
  "occurrences m (c # cs) =
     (if startsWith (c # cs) m then [0] else []) @ map Suc (occurrences m cs)"
  unfolding occurrences_def length_Cons upt_shift
  by (simp add: filter_map comp_def del: upt_Suc)

lemma occurrences_empty_iff:
  "occurrences m t = [] \<longleftrightarrow> (\<forall>i\<le>length t. \<not> startsWith (drop i t) m)"
  by (auto simp: occurrences_def filter_empty_conv less_Suc_eq_le)

lemma length_occurrences_drop: "length (occurrences m (drop k t)) \<le> length (occurrences m t)"
proof (induction t arbitrary: k)
  case Nil
  then show ?case by simp
next
  case (Cons c cs)
  show ?case
  proof (cases k)
    case 0
    then show ?thesis by simp
  next
    case (Suc k')
    have "length (occurrences m (drop k' cs)) \<le> length (occurrences m cs)" by (rule Cons.IH)
    then show ?thesis using Suc by (simp add: occurrences_Cons)
  qed
qed

lemma length_globalMatches_le: "length (globalMatches m t) \<le> length (occurrences m t)"
proof (induction m t rule: globalMatches.induct)
  case (1 m)
  then show ?case by (simp add: occurrences_Nil)
next
  case (2 m c cs)
  show ?case
  proof (cases "startsWith (c # cs) m")
    case True
    have "length (globalMatches m (drop (length m - 1) cs)) \<le> length (occurrences m (drop (length m - 1) cs))"
      using 2(1)[OF True] .
    also have "\<dots> \<le> length (occurrences m cs)" by (rule length_occurrences_drop)
    finally show ?thesis using True by (simp add: occurrences_Cons)
  next
    case False
    then show ?thesis using 2(2)[OF False] by (simp add: occurrences_Cons)
  qed
qed

lemma globalMatches_empty_iff: "globalMatches m t = [] \<longleftrightarrow> occurrences m t = []"
proof
  assume "occurrences m t = []"
  then show "globalMatches m t = []" using length_globalMatches_le[of m t] by simp
next
  show "globalMatches m t = [] \<Longrightarrow> occurrences m t = []"
  proof (induction m t rule: globalMatches.induct)
    case (1 m)
    then show ?case by (simp add: occurrences_Nil split: if_splits)
  next
    case (2 m c cs)
    then show ?case by (auto simp: occurrences_Cons split: if_splits)
  qed
qed

lemma drop_step: "drop (length m - 1) cs = drop (max 1 (length m)) (c # cs)"
  by (cases "length m") auto

lemma two_matches_if_disjoint:
  "j \<le> length t \<Longrightarrow> startsWith (drop i t) m \<Longrightarrow> startsWith (drop j t) m
     \<Longrightarrow> i + max 1 (length m) \<le> j \<Longrightarrow> 2 \<le> length (globalMatches m t)"
proof (induction m t arbitrary: i j rule: globalMatches.induct)
  case (1 m)
  then show ?case by simp
next
  case (2 m c cs)
  let ?k = "max 1 (length m)"
  show ?case
  proof (cases "startsWith (c # cs) m")
    case True
    have kj: "?k \<le> j" using 2(6) by linarith
    have "drop (j - ?k) (drop ?k (c # cs)) = drop j (c # cs)"
      using kj by (simp del: drop_Suc_Cons)
    then have sw: "startsWith (drop (j - ?k) (drop (length m - 1) cs)) m"
      using 2(5) by (simp only: drop_step[of m cs c])
    have "j - ?k \<le> length (drop (length m - 1) cs)"
      using 2(3) kj by (simp only: drop_step[of m cs c]) simp
    with sw have "occurrences m (drop (length m - 1) cs) \<noteq> []"
      by (auto simp: occurrences_empty_iff)
    then have "globalMatches m (drop (length m - 1) cs) \<noteq> []"
      by (simp add: globalMatches_empty_iff)
    then have "1 \<le> length (globalMatches m (drop (length m - 1) cs))"
      by (cases "globalMatches m (drop (length m - 1) cs)") auto
    then show ?thesis using True by simp
  next
    case False
    have i0: "i \<noteq> 0" using False 2(4) by (cases i) auto
    then obtain i' where i': "i = Suc i'" by (cases i) auto
    have "j \<noteq> 0" using 2(6) by auto
    then obtain j' where j': "j = Suc j'" by (cases j) auto
    have "2 \<le> length (globalMatches m cs)"
      using 2(2)[OF False, of j' i'] 2(3,4,5,6) i' j' by simp
    then show ?thesis using False by simp
  qed
qed

lemma disjoint_if_two_matches:
  "2 \<le> length (globalMatches m t) \<Longrightarrow> twoDisjointOccurrences m t"
proof (induction m t rule: globalMatches.induct)
  case (1 m)
  then show ?case by (simp split: if_splits)
next
  case (2 m c cs)
  let ?k = "max 1 (length m)"
  show ?case
  proof (cases "startsWith (c # cs) m")
    case True
    then have "globalMatches m (drop (length m - 1) cs) \<noteq> []"
      using 2(3) by auto
    then have "occurrences m (drop (length m - 1) cs) \<noteq> []"
      by (simp add: globalMatches_empty_iff)
    then obtain j where j: "j \<le> length (drop (length m - 1) cs)"
        "startsWith (drop j (drop (length m - 1) cs)) m"
      by (auto simp: occurrences_empty_iff)
    have kl: "?k \<le> length (c # cs)"
      using startsWith_length[OF True] by simp
    have "j + ?k \<le> length (c # cs)"
      using j(1) kl by (simp only: drop_step[of m cs c] length_drop)
    moreover have "startsWith (drop (j + ?k) (c # cs)) m"
      using j(2) by (simp only: drop_step[of m cs c] drop_drop)
    moreover have "startsWith (drop 0 (c # cs)) m" using True by simp
    ultimately have "j + ?k \<le> length (c # cs) \<and> startsWith (drop 0 (c # cs)) m
        \<and> startsWith (drop (j + ?k) (c # cs)) m \<and> 0 + ?k \<le> j + ?k"
      by simp
    then show ?thesis
      unfolding twoDisjointOccurrences_def by blast
  next
    case False
    then have "twoDisjointOccurrences m cs" using 2 by simp
    then obtain i j where ij: "j \<le> length cs" "startsWith (drop i cs) m"
        "startsWith (drop j cs) m" "i + ?k \<le> j"
      unfolding twoDisjointOccurrences_def by auto
    have "Suc j \<le> length (c # cs) \<and> startsWith (drop (Suc i) (c # cs)) m
        \<and> startsWith (drop (Suc j) (c # cs)) m \<and> Suc i + ?k \<le> Suc j"
      using ij by simp
    then show ?thesis
      unfolding twoDisjointOccurrences_def by blast
  qed
qed

lemma one_occurrence_one_match:
  "length (occurrences m t) = 1 \<Longrightarrow> length (globalMatches m t) = 1"
proof -
  assume a: "length (occurrences m t) = 1"
  then have "occurrences m t \<noteq> []" by auto
  then have "globalMatches m t \<noteq> []" by (simp add: globalMatches_empty_iff)
  then have "1 \<le> length (globalMatches m t)" by (cases "globalMatches m t") auto
  with length_globalMatches_le[of m t] a show ?thesis by simp
qed

lemma literalOfPattern_escapeRegExp: "literalOfPattern (escapeRegExp m) = Some m"
proof (induction m)
  case Nil
  then show ?case by simp
next
  case (Cons c cs)
  show ?case
  proof (cases "c \<in> set syntaxCharacters")
    case True
    then show ?thesis using Cons by simp
  next
    case False
    note nc = this
    have nb: "c \<noteq> backslash" using False by (auto simp: syntaxCharacters_def)
    show ?thesis
    proof (cases "escapeRegExp cs")
      case Nil
      then have "cs = []" by (cases cs) (auto split: if_splits)
      then show ?thesis using nc by simp
    next
      case (Cons d ds)
      then show ?thesis using nc nb Cons.IH by simp
    qed
  qed
qed

lemma getSubstitution_no_dollar:
  "dollar \<notin> set r \<Longrightarrow> getSubstitution m s p r = r"
  by (induction m s p r rule: getSubstitution.induct) auto


lemma indexOf_Some:
  "indexOf t m = Some i \<Longrightarrow> i \<le> length t \<and> startsWith (drop i t) m \<and> (\<forall>j<i. \<not> startsWith (drop j t) m)"
proof (induction t arbitrary: i)
  case Nil
  then show ?case by (auto split: if_splits)
next
  case (Cons c cs)
  show ?case
  proof (cases "startsWith (c # cs) m")
    case True
    then show ?thesis using Cons.prems by simp
  next
    case False
    then obtain k where k: "indexOf cs m = Some k" "i = Suc k"
      using Cons.prems by auto
    from Cons.IH[OF k(1)] have ih: "k \<le> length cs" "startsWith (drop k cs) m" "\<forall>j<k. \<not> startsWith (drop j cs) m" by auto
    have "\<forall>j<i. \<not> startsWith (drop j (c # cs)) m"
    proof (intro allI impI)
      fix j assume "j < i"
      show "\<not> startsWith (drop j (c # cs)) m"
      proof (cases j)
        case 0
        then show ?thesis using False by simp
      next
        case (Suc j')
        then show ?thesis using ih(3) \<open>j < i\<close> k(2) by simp
      qed
    qed
    then show ?thesis using ih k by simp
  qed
qed

lemma indexOf_None:
  "indexOf t m = None \<Longrightarrow> i \<le> length t \<Longrightarrow> \<not> startsWith (drop i t) m"
proof (induction t arbitrary: i)
  case Nil
  then show ?case by (auto split: if_splits simp: startsWith_def)
next
  case (Cons c cs)
  then show ?case by (cases i) (auto split: if_splits)
qed

section \<open>The steps of addAssets\<close>

lemma checkInjectionPoint_Some:
  "checkInjectionPoint (Some m) t =
     (if globalMatches m t = [] then Some (Error (cantFindMessage m))
      else if length (globalMatches m t) \<noteq> 1 then Some (Error (multipleInstancesMessage m))
      else None)"
  by (simp add: checkInjectionPoint_def literalOfPattern_escapeRegExp Let_def)

lemma alreadyCalled_checkAlreadyCalled: "alreadyCalled (fst (checkAlreadyCalled this c)) = True"
  by (simp add: checkAlreadyCalled_def)

lemma config_checkAlreadyCalled: "config (fst (checkAlreadyCalled this c)) = config this"
  by (simp add: checkAlreadyCalled_def)

lemma assets_checkAlreadyCalled: "assets (snd (checkAlreadyCalled this c)) = assets c"
  by (simp add: checkAlreadyCalled_def)

lemma addAssetsBeforeEntries_Inl:
  assumes "addAssetsBeforeEntries h p this c = Inl (e, p1, this1, c1)"
  shows "this1 = fst (checkAlreadyCalled this c)"
    and "warnings c1 = warnings (snd (checkAlreadyCalled this c))"
    and "generatedAssetNames p1 = generatedAssetNames p"
  using assms
  by (auto simp: addAssetsBeforeEntries_def pushExclude_def Let_def
      split: prod.splits sum.splits option.splits)

lemma addAssetsBeforeEntries_Inr:
  assumes "addAssetsBeforeEntries h p this c = Inr (p1, this1, c1, t)"
  shows "this1 = fst (checkAlreadyCalled this c)"
    and "c1 = (snd (checkAlreadyCalled this c))
           \<lparr>fileDependencies :=
              insert (upathResolve h (swSrc (config this)))
                (fileDependencies (snd (checkAlreadyCalled this c)))\<rparr>"
    and "\<exists>r. exclude (config this) = Some r
           \<and> p1 = p\<lparr>arrays := (arrays p)(r := arrays p r @ [IsGeneratedAssetName])\<rparr>"
    and "assets c (swDest (config this)) = Some t"
    and "checkInjectionPoint (injectionPoint (config this)) t = None"
  using assms
  by (auto simp: addAssetsBeforeEntries_def pushExclude_def Let_def checkAlreadyCalled_def
      split: prod.splits sum.splits option.splits if_splits)

lemma injectManifestString_frame:
  assumes "injectManifestString h p c cfg t ms = (out, p1, c1)"
  shows "generatedAssetNames p \<subseteq> generatedAssetNames p1"
    and "arrays p1 = arrays p"
    and "warnings c1 = warnings c"
    and "errors c1 = errors c"
  using assms
  by (auto simp: injectManifestString_def updateAsset_def Let_def
      split: option.splits sum.splits prod.splits)

section \<open>Evaluating the example build\<close>

lemmas example_defs =
  exampleHost_def exampleConfig_def exampleProcess_def exampleCompilation_def
  exampleCompiler_def newInjectManifest_def

lemmas stringify_defs =
  stringifyEntries_def stringifyEntry_def jsonString_def jsonEscape_def
  dquote_def squote_def backslash_def

lemma stringify_example:
  "stringifyEntries [\<lparr>url = ''a.js'', revision = Some ''123''\<rparr>, \<lparr>url = ''b.js'', revision = None\<rparr>]
     = map (\<lambda>x. if x = squote then dquote else x)
         ''[{'revision':'123','url':'a.js'},{'revision':null,'url':'b.js'}]''"
  by (simp add: stringify_defs)

section \<open>The frame of addAssets\<close>

lemma warnings_logInfo: "warnings (logInfo c d n s) = warnings c"
  by (simp add: logInfo_def split: option.splits)

lemma assets_logInfo: "assets (logInfo c d n s) = assets c"
  by (simp add: logInfo_def split: option.splits)

lemma addAssetsAfterEntries_frame:
  "instanceOf (addAssetsAfterEntries h p this c t sz es) = this
   \<and> warnings (compilationOf (addAssetsAfterEntries h p this c t sz es)) = warnings c
   \<and> generatedAssetNames p \<subseteq> generatedAssetNames (processOf (addAssetsAfterEntries h p this c t sz es))
   \<and> arrays (processOf (addAssetsAfterEntries h p this c t sz es)) = arrays p"
proof -
  obtain out p2 c2 where ims:
    "injectManifestString h p c (config this) t (manifestStringOf h this c es) = (out, p2, c2)"
    by (cases "injectManifestString h p c (config this) t (manifestStringOf h this c es)") auto
  note f = injectManifestString_frame[OF ims]
  show ?thesis
    using ims f
    by (cases out)
      (simp_all add: addAssetsAfterEntries_def instanceOf_def compilationOf_def processOf_def
        warnings_logInfo)
qed

lemma addAssets_Inl:
  "addAssetsBeforeEntries h p this c = Inl (e, p1, this1, c1)
     \<Longrightarrow> addAssets h p this c = (Rejected e, p1, this1, c1)"
  by (simp add: addAssets_def)

lemma addAssets_Inr:
  assumes "addAssetsBeforeEntries h p this c = Inr (p1, this1, c1, t)"
    and "getManifestEntriesFromCompilation h p1 c1 (config this1) = (pushed, result)"
  shows "addAssets h p this c =
     (case result of
        Inl e \<Rightarrow> (Rejected e, p1, this1, c1\<lparr>warnings := warnings c1 @ pushed\<rparr>)
      | Inr (sz, es) \<Rightarrow>
          addAssetsAfterEntries h p1 this1 (c1\<lparr>warnings := warnings c1 @ pushed\<rparr>) t sz es)"
  using assms by (simp add: addAssets_def Let_def)

lemma addAssets_frame:
  "instanceOf (addAssets h p this c) = fst (checkAlreadyCalled this c)
   \<and> warnings (compilationOf (addAssets h p this c))
       = warnings (snd (checkAlreadyCalled this c)) @ entryWarnings h p this c
   \<and> generatedAssetNames p \<subseteq> generatedAssetNames (processOf (addAssets h p this c))"
proof (cases "addAssetsBeforeEntries h p this c")
  case (Inl a)
  obtain e p1 this1 c1 where a: "a = (e, p1, this1, c1)" by (cases a) auto
  show ?thesis
    using Inl a addAssetsBeforeEntries_Inl[of h p this c e p1 this1 c1]
    by (simp add: addAssets_Inl entryWarnings_def instanceOf_def compilationOf_def processOf_def)
next
  case (Inr b)
  obtain p1 this1 c1 t where b: "b = (p1, this1, c1, t)" by (cases b) auto
  obtain pushed result where g:
    "getManifestEntriesFromCompilation h p1 c1 (config this1) = (pushed, result)"
    by (cases "getManifestEntriesFromCompilation h p1 c1 (config this1)") auto
  have be: "addAssetsBeforeEntries h p this c = Inr (p1, this1, c1, t)" using Inr b by simp
  have i: "this1 = fst (checkAlreadyCalled this c)"
    and w: "warnings c1 = warnings (snd (checkAlreadyCalled this c))"
    using addAssetsBeforeEntries_Inr(1,2)[OF be] by simp_all
  have n: "generatedAssetNames p1 = generatedAssetNames p"
    using addAssetsBeforeEntries_Inr(3)[OF be] by auto
  have ew: "entryWarnings h p this c = pushed"
    using be g by (simp add: entryWarnings_def)
  show ?thesis
  proof (cases result)
    case (Inl e)
    then show ?thesis
      using addAssets_Inr[OF be g] i w n ew
      by (simp add: instanceOf_def compilationOf_def processOf_def)
  next
    case (Inr se)
    obtain sz es where se: "se = (sz, es)" by (cases se) auto
    have "addAssets h p this c
        = addAssetsAfterEntries h p1 this1 (c1\<lparr>warnings := warnings c1 @ pushed\<rparr>) t sz es"
      using addAssets_Inr[OF be g] Inr se by simp
    then show ?thesis
      using addAssetsAfterEntries_frame[of h p1 this1 "c1\<lparr>warnings := warnings c1 @ pushed\<rparr>" t sz es]
        i w n ew by simp
  qed
qed

lemma instanceOf_addAssets:
  "instanceOf (addAssets h p this c) = fst (checkAlreadyCalled this c)"
  using addAssets_frame[of h p this c] by simp

lemma warnings_addAssets:
  "warnings (compilationOf (addAssets h p this c))
     = warnings (snd (checkAlreadyCalled this c)) @ entryWarnings h p this c"
  using addAssets_frame[of h p this c] by simp

lemma generatedAssetNames_addAssets_mono:
  "generatedAssetNames p \<subseteq> generatedAssetNames (processOf (addAssets h p this c))"
  using addAssets_frame[of h p this c] by simp

section \<open>The invocation flag and the repeated-call warning\<close>

lemma entryWarnings_exampleHost: "entryWarnings (exampleHost es sm) p this c = []"
  by (simp add: entryWarnings_def exampleHost_def split: sum.splits prod.splits)

lemma alreadyCalled_handleMake:
  "alreadyCalled (instanceOf (handleMake h p this c k)) = alreadyCalled this"
  by (auto simp: handleMake_def instanceOf_def Let_def split: sum.splits prod.splits)

text \<open>
  C6, as the code has it. The flag is false in a new instance, \<open>handleMake\<close> leaves it
  as it is, and it is true after every call of \<open>addAssets\<close>, whatever the outcome of
  the call: the flag is set on entry (line 341), before anything that can throw.
\<close>

theorem alreadyCalled_set_on_entry:
  "alreadyCalled (newInjectManifest cfg) = False
   \<and> alreadyCalled (instanceOf (handleMake h p this c k)) = alreadyCalled this
   \<and> alreadyCalled (instanceOf (addAssets h p this c)) = True"
  by (simp add: instanceOf_addAssets alreadyCalled_checkAlreadyCalled alreadyCalled_handleMake
      newInjectManifest_def)

text \<open>
  C6 as stated fails: the first call of a new instance on an asset without the marker
  is rejected with the not-found error, and the flag is true after it.
\<close>

theorem alreadyCalled_after_failed_call:
  "alreadyCalled (newInjectManifest exampleConfig) = False
   \<and> outcomeOf (addAssets (exampleHost [] None) exampleProcess (newInjectManifest exampleConfig)
        (exampleCompilation ''importScripts()''))
       = Rejected (Error (cantFindMessage ''self.__WB_MANIFEST''))
   \<and> alreadyCalled (instanceOf (addAssets (exampleHost [] None) exampleProcess
        (newInjectManifest exampleConfig) (exampleCompilation ''importScripts()''))) = True"
  by (simp add: addAssets_def addAssetsBeforeEntries_def checkAlreadyCalled_def pushExclude_def
      checkInjectionPoint_Some startsWith_def example_defs outcomeOf_def instanceOf_def)

lemma isRepeatedCallWarning_WebpackError [simp]:
  "isRepeatedCallWarning (WebpackError warningMessage)"
  by (simp add: isRepeatedCallWarning_def)

lemma warnings_checkAlreadyCalled:
  "warnings (snd (checkAlreadyCalled this c)) =
     (if alreadyCalled this \<and> \<not> list_ex isRepeatedCallWarning (warnings c)
      then warnings c @ [WebpackError warningMessage] else warnings c)"
proof -
  have "isRepeatedCallWarning = (\<lambda>warning. instanceofError warning \<and> message warning = warningMessage)"
    by (rule ext) (simp add: isRepeatedCallWarning_def)
  then show ?thesis by (simp add: checkAlreadyCalled_def)
qed

text \<open>
  C5, as the code has it. After any call of \<open>addAssets\<close> the flag is set, so the first
  call pushes no repeated-call warning and every later call takes the warning branch.
  On that branch the warning is pushed unless the warnings of the compilation at hand
  already hold it, so \<open>addAssets\<close> itself adds the warning to the warnings of one
  compilation at most once, however often the call is repeated on that compilation.
  After what it leaves come only the warnings the entry computation pushes.
\<close>

theorem repeated_call_warning:
  "alreadyCalled (instanceOf (addAssets h p this c))
   \<and> warnings (compilationOf (addAssets h p this c)) =
       (if alreadyCalled this \<and> \<not> list_ex isRepeatedCallWarning (warnings c)
        then warnings c @ [WebpackError warningMessage] else warnings c)
       @ entryWarnings h p this c
   \<and> length (filter isRepeatedCallWarning
         (if alreadyCalled this \<and> \<not> list_ex isRepeatedCallWarning (warnings c)
          then warnings c @ [WebpackError warningMessage] else warnings c))
       \<le> max 1 (length (filter isRepeatedCallWarning (warnings c)))"
proof -
  have a: "alreadyCalled (instanceOf (addAssets h p this c))"
    by (simp add: instanceOf_addAssets alreadyCalled_checkAlreadyCalled)
  have b: "warnings (compilationOf (addAssets h p this c)) =
       (if alreadyCalled this \<and> \<not> list_ex isRepeatedCallWarning (warnings c)
        then warnings c @ [WebpackError warningMessage] else warnings c)
       @ entryWarnings h p this c"
    by (simp only: warnings_addAssets warnings_checkAlreadyCalled)
  have c: "length (filter isRepeatedCallWarning
         (if alreadyCalled this \<and> \<not> list_ex isRepeatedCallWarning (warnings c)
          then warnings c @ [WebpackError warningMessage] else warnings c))
       \<le> max 1 (length (filter isRepeatedCallWarning (warnings c)))"
  proof (cases "alreadyCalled this \<and> \<not> list_ex isRepeatedCallWarning (warnings c)")
    case True
    then have "filter isRepeatedCallWarning (warnings c) = []"
      by (simp add: list_ex_iff filter_empty_conv)
    then show ?thesis using True by simp
  next
    case False
    then show ?thesis by (simp only: if_False)
  qed
  from a b c show ?thesis by (intro conjI)
qed

lemma example_call_resolves:
  assumes "config this = exampleConfig"
  shows "outcomeOf (addAssets (exampleHost [] None) p this
           (exampleCompilation ''self.__WB_MANIFEST'')) = Resolved"
proof -
  have cfg: "config (fst (checkAlreadyCalled this (exampleCompilation ''self.__WB_MANIFEST''))) = exampleConfig"
    using assms by (simp add: config_checkAlreadyCalled)
  have chk: "checkInjectionPoint (Some ''self.__WB_MANIFEST'') ''self.__WB_MANIFEST'' = None"
    by (simp add: checkInjectionPoint_Some startsWith_def)
  have ast: "assets (snd (checkAlreadyCalled this (exampleCompilation ''self.__WB_MANIFEST''))) ''sw.js''
        = Some ''self.__WB_MANIFEST''"
    by (simp add: assets_checkAlreadyCalled exampleCompilation_def)
  show ?thesis
    by (cases "checkAlreadyCalled this (exampleCompilation ''self.__WB_MANIFEST'')")
      (use cfg chk ast in \<open>simp add: addAssets_def addAssetsAfterEntries_def
        addAssetsBeforeEntries_def pushExclude_def injectManifestString_def
        searchValueString_def outcomeOf_def exampleHost_def exampleConfig_def Let_def\<close>)
qed

lemma config_exampleWatch: "config (instanceOf (exampleWatch n)) = exampleConfig"
  by (induction n) (simp_all add: instanceOf_addAssets config_checkAlreadyCalled newInjectManifest_def)

lemma alreadyCalled_exampleWatch: "alreadyCalled (instanceOf (exampleWatch n))"
  by (cases n) (simp_all add: instanceOf_addAssets alreadyCalled_checkAlreadyCalled)

lemma outcomeOf_exampleWatch: "outcomeOf (exampleWatch n) = Resolved"
  by (cases n) (simp_all add: example_call_resolves config_exampleWatch newInjectManifest_def)

lemma warnings_exampleWatch_Suc:
  "warnings (compilationOf (exampleWatch (Suc n))) = [WebpackError warningMessage]"
  by (simp add: warnings_addAssets warnings_checkAlreadyCalled alreadyCalled_exampleWatch
      entryWarnings_exampleHost
      exampleCompilation_def)

text \<open>
  C5 as stated fails: in watch mode every rebuild has a compilation of its own, and
  the second and the third rebuild each emit the warning, so one instance emits it
  more than once.
\<close>

theorem warning_emitted_on_every_rebuild:
  "outcomeOf (exampleWatch 0) = Resolved
   \<and> outcomeOf (exampleWatch (Suc 0)) = Resolved
   \<and> outcomeOf (exampleWatch (Suc (Suc 0))) = Resolved
   \<and> warnings (compilationOf (exampleWatch 0)) = []
   \<and> warnings (compilationOf (exampleWatch (Suc 0))) = [WebpackError warningMessage]
   \<and> warnings (compilationOf (exampleWatch (Suc (Suc 0)))) = [WebpackError warningMessage]"
proof -
  have "warnings (compilationOf (exampleWatch 0)) = []"
    by (simp add: warnings_addAssets warnings_checkAlreadyCalled newInjectManifest_def
        entryWarnings_exampleHost
        exampleCompilation_def)
  then show ?thesis
    by (simp only: outcomeOf_exampleWatch warnings_exampleWatch_Suc simp_thms)
qed

section \<open>The child compilation and the verbatim copy\<close>

lemma list_all_emitConflicts: "list_all isConflictError (emitConflicts c name source)"
  by (simp add: emitConflicts_def conflictMessage_def startsWith_def split: option.splits)

lemma emitAsset_diagnostics:
  "warnings (emitAsset c name source) = warnings c
   \<and> errors (emitAsset c name source) = errors c @ emitConflicts c name source"
  by (simp add: emitAsset_def)

lemma emitChildAssets_diagnostics:
  "warnings (emitChildAssets c cc) = warnings c
   \<and> (\<exists>conflicts. errors (emitChildAssets c cc) = errors c @ conflicts
         \<and> list_all isConflictError conflicts)"
proof (cases cc)
  case None
  then show ?thesis by (simp add: emitChildAssets_def)
next
  case (Some x)
  have "warnings (foldl (\<lambda>acc (name, source). emitAsset acc name source) c xs) = warnings c
      \<and> (\<exists>conflicts. errors (foldl (\<lambda>acc (name, source). emitAsset acc name source) c xs)
            = errors c @ conflicts \<and> list_all isConflictError conflicts)" for xs
  proof (induction xs arbitrary: c)
    case Nil
    then show ?case by simp
  next
    case (Cons a xs)
    obtain name source where a: "a = (name, source)" by (cases a) auto
    from Cons.IH[of "emitAsset c name source"]
    obtain conflicts where
      w: "warnings (foldl (\<lambda>acc (name, source). emitAsset acc name source)
            (emitAsset c name source) xs) = warnings (emitAsset c name source)"
      and e: "errors (foldl (\<lambda>acc (name, source). emitAsset acc name source)
            (emitAsset c name source) xs) = errors (emitAsset c name source) @ conflicts"
      and l: "list_all isConflictError conflicts"
      by blast
    have "list_all isConflictError (emitConflicts c name source @ conflicts)"
      using l list_all_emitConflicts by simp
    then show ?case
      using a w e by (auto simp: emitAsset_diagnostics)
  qed
  then show ?thesis using Some by (simp add: emitChildAssets_def)
qed

lemma emitChildAssets_no_assets:
  "cc = None \<or> (\<exists>x. cc = Some x \<and> childAssets x = []) \<Longrightarrow> emitChildAssets c cc = c"
  by (auto simp: emitChildAssets_def)

text \<open>
  C7. When \<open>runAsChild\<close> calls back without an error, \<open>performChildCompilation\<close>
  resolves; the warnings of the child compilation are appended, in order, to the
  warnings of the outer compilation, and its errors, in order, to the errors the outer
  compilation holds at the callback. These are the errors it held before, followed only
  by the conflict errors of the host for the assets the child build emitted; with no
  such asset they are the errors it held before.
\<close>

theorem child_diagnostics_appended:
  assumes "runAsChild h (makeChildCompiler this parentCompiler) = Inr cc"
  shows "fst (performChildCompilation h this c parentCompiler) = Resolved
    \<and> warnings (snd (performChildCompilation h this c parentCompiler))
        = warnings c @ (case cc of None \<Rightarrow> [] | Some child \<Rightarrow> childWarnings child)
    \<and> errors (snd (performChildCompilation h this c parentCompiler))
        = errors (emitChildAssets c cc)
          @ (case cc of None \<Rightarrow> [] | Some child \<Rightarrow> childErrors child)
    \<and> (\<exists>conflicts. errors (emitChildAssets c cc) = errors c @ conflicts
          \<and> list_all isConflictError conflicts)
    \<and> ((case cc of None \<Rightarrow> True | Some child \<Rightarrow> childAssets child = [])
          \<longrightarrow> errors (snd (performChildCompilation h this c parentCompiler))
              = errors c @ (case cc of None \<Rightarrow> [] | Some child \<Rightarrow> childErrors child))"
proof -
  have p: "performChildCompilation h this c parentCompiler =
      (Resolved, (emitChildAssets c cc)
         \<lparr>warnings := warnings (emitChildAssets c cc) @ warningsOrEmpty cc,
          errors := errors (emitChildAssets c cc) @ errorsOrEmpty cc\<rparr>)"
    using assms by (simp add: performChildCompilation_def Let_def)
  have n: "(case cc of None \<Rightarrow> True | Some child \<Rightarrow> childAssets child = [])
      \<Longrightarrow> emitChildAssets c cc = c"
    by (rule emitChildAssets_no_assets) (auto split: option.splits)
  show ?thesis
    using emitChildAssets_diagnostics[of c cc] n
    by (auto simp: p warningsOrEmpty_def errorsOrEmpty_def)
qed

theorem child_diagnostics_appended_witness:
  "runAsChild
     ((exampleHost [] None)
        \<lparr>runAsChild := \<lambda>child. Inr (Some \<lparr>childWarnings = [WebpackError ''unused export''],
              childErrors = [WebpackError ''Module not found''],
              childAssets = [(''sw.js'', ''self.__WB_MANIFEST'')]\<rparr>)\<rparr>)
     (makeChildCompiler (newInjectManifest exampleConfig) exampleCompiler)
     = Inr (Some \<lparr>childWarnings = [WebpackError ''unused export''],
              childErrors = [WebpackError ''Module not found''],
              childAssets = [(''sw.js'', ''self.__WB_MANIFEST'')]\<rparr>)
   \<and> fst (performChildCompilation
       ((exampleHost [] None)
          \<lparr>runAsChild := \<lambda>child. Inr (Some \<lparr>childWarnings = [WebpackError ''unused export''],
              childErrors = [WebpackError ''Module not found''],
              childAssets = [(''sw.js'', ''self.__WB_MANIFEST'')]\<rparr>)\<rparr>)
       (newInjectManifest exampleConfig)
       ((exampleCompilation ''old'')\<lparr>errors := [Error ''earlier'']\<rparr>) exampleCompiler) = Resolved
   \<and> errors (snd (performChildCompilation
       ((exampleHost [] None)
          \<lparr>runAsChild := \<lambda>child. Inr (Some \<lparr>childWarnings = [WebpackError ''unused export''],
              childErrors = [WebpackError ''Module not found''],
              childAssets = [(''sw.js'', ''self.__WB_MANIFEST'')]\<rparr>)\<rparr>)
       (newInjectManifest exampleConfig)
       ((exampleCompilation ''old'')\<lparr>errors := [Error ''earlier'']\<rparr>) exampleCompiler))
     = [Error ''earlier'', WebpackError (conflictMessage ''sw.js''),
        WebpackError ''Module not found'']
   \<and> warnings (snd (performChildCompilation
       ((exampleHost [] None)
          \<lparr>runAsChild := \<lambda>child. Inr (Some \<lparr>childWarnings = [WebpackError ''unused export''],
              childErrors = [WebpackError ''Module not found''],
              childAssets = [(''sw.js'', ''self.__WB_MANIFEST'')]\<rparr>)\<rparr>)
       (newInjectManifest exampleConfig)
       ((exampleCompilation ''old'')\<lparr>errors := [Error ''earlier'']\<rparr>) exampleCompiler))
     = [WebpackError ''unused export'']"
proof -
  let ?child = "\<lparr>childWarnings = [WebpackError ''unused export''],
              childErrors = [WebpackError ''Module not found''],
              childAssets = [(''sw.js'', ''self.__WB_MANIFEST'')]\<rparr>"
  let ?h = "(exampleHost [] None)\<lparr>runAsChild := \<lambda>child. Inr (Some ?child)\<rparr>"
  let ?c = "(exampleCompilation ''old'')\<lparr>errors := [Error ''earlier'']\<rparr>"
  have r: "runAsChild ?h (makeChildCompiler (newInjectManifest exampleConfig) exampleCompiler)
     = Inr (Some ?child)"
    by simp
  have e: "errors (emitChildAssets ?c (Some ?child))
      = [Error ''earlier'', WebpackError (conflictMessage ''sw.js'')]"
    by (simp add: emitChildAssets_def emitAsset_def emitConflicts_def exampleCompilation_def)
  show ?thesis
    using r e child_diagnostics_appended[OF r, of ?c]
    by (simp add: exampleCompilation_def)
qed

lemma handleMake_copy:
  assumes "validateWebpackInjectManifestOptions h (arrays p) (config this) = Inr (store, v)"
    and "\<not> compileSrc v"
  shows "handleMake h p this c k =
     (case readFileSync k (swSrc v) of
        Inl error \<Rightarrow>
          (Rejected error,
           p\<lparr>arrays := store,
              generatedAssetNames := insert (relativeToOutputPath h c (swDest v)) (generatedAssetNames p)\<rparr>,
           this\<lparr>config := v\<lparr>swDest := relativeToOutputPath h c (swDest v)\<rparr>\<rparr>, c)
      | Inr source \<Rightarrow>
          (Resolved,
           p\<lparr>arrays := store,
              generatedAssetNames := insert (relativeToOutputPath h c (swDest v)) (generatedAssetNames p)\<rparr>,
           this\<lparr>config := v\<lparr>swDest := relativeToOutputPath h c (swDest v)\<rparr>\<rparr>,
           if nonEmptyArray (webpackCompilationPlugins v)
           then (emitAsset c (relativeToOutputPath h c (swDest v)) source)
                  \<lparr>warnings := warnings c @ [ignoredPluginsWarning]\<rparr>
           else emitAsset c (relativeToOutputPath h c (swDest v)) source))"
  using assms
  by (simp add: handleMake_def addSrcToAssets_def Let_def emitAsset_def split: sum.splits)

text \<open>
  C8. Let validation succeed with \<open>compileSrc\<close> false and let the source file be
  readable. Then \<open>handleMake\<close> resolves, the destination asset is the source read, as
  it is, and the warnings of the compilation grow by exactly the one warning that
  \<open>webpackCompilationPlugins\<close> will be ignored if that option is a non-empty array, and
  by nothing otherwise. The errors of the compilation grow by nothing but the conflict
  error of the host when the destination already held another source: none comes from
  the plugins.
\<close>

theorem copy_mode_emits_raw_source:
  assumes "validateWebpackInjectManifestOptions h (arrays p) (config this) = Inr (store, v)"
    and "\<not> compileSrc v"
    and "readFileSync parentCompiler (swSrc v) = Inr source"
  shows "outcomeOf (handleMake h p this c parentCompiler) = Resolved
    \<and> assets (compilationOf (handleMake h p this c parentCompiler))
         (relativeToOutputPath h c (swDest v)) = Some source
    \<and> swDest (config (instanceOf (handleMake h p this c parentCompiler)))
         = relativeToOutputPath h c (swDest v)
    \<and> warnings (compilationOf (handleMake h p this c parentCompiler))
         = warnings c
           @ (if webpackCompilationPlugins v = None \<or> webpackCompilationPlugins v = Some []
              then []
              else [WebpackError
                      ''compileSrc is false, so the webpackCompilationPlugins option will be ignored.''])
    \<and> errors (compilationOf (handleMake h p this c parentCompiler))
         = errors c @ emitConflicts c (relativeToOutputPath h c (swDest v)) source
    \<and> list_all isConflictError (emitConflicts c (relativeToOutputPath h c (swDest v)) source)
    \<and> (assets c (relativeToOutputPath h c (swDest v)) = None
          \<longrightarrow> errors (compilationOf (handleMake h p this c parentCompiler)) = errors c)"
proof -
  have n: "nonEmptyArray (webpackCompilationPlugins v)
      \<longleftrightarrow> \<not> (webpackCompilationPlugins v = None \<or> webpackCompilationPlugins v = Some [])"
    by (auto simp: nonEmptyArray_def split: option.splits)
  have e: "assets c (relativeToOutputPath h c (swDest v)) = None
      \<Longrightarrow> emitConflicts c (relativeToOutputPath h c (swDest v)) source = []"
    by (simp add: emitConflicts_def)
  show ?thesis
    using assms(3) e list_all_emitConflicts[of c "relativeToOutputPath h c (swDest v)" source]
    by (simp add: handleMake_copy[OF assms(1,2)] n outcomeOf_def compilationOf_def instanceOf_def
        emitAsset_def ignoredPluginsWarning_def)
qed

theorem copy_mode_emits_raw_source_witness:
  "validateWebpackInjectManifestOptions (exampleHost [] None) (arrays exampleProcess)
      (exampleConfig\<lparr>compileSrc := False, webpackCompilationPlugins := Some [Plugin ''terser'']\<rparr>)
     = Inr (arrays exampleProcess,
            exampleConfig\<lparr>compileSrc := False, webpackCompilationPlugins := Some [Plugin ''terser'']\<rparr>)
   \<and> readFileSync exampleCompiler ''src/sw.js'' = Inr ''self.__WB_MANIFEST''
   \<and> outcomeOf (handleMake (exampleHost [] None) exampleProcess
        (newInjectManifest
           (exampleConfig\<lparr>compileSrc := False, webpackCompilationPlugins := Some [Plugin ''terser'']\<rparr>))
        (exampleCompilation ''old'') exampleCompiler) = Resolved
   \<and> assets (compilationOf (handleMake (exampleHost [] None) exampleProcess
        (newInjectManifest
           (exampleConfig\<lparr>compileSrc := False, webpackCompilationPlugins := Some [Plugin ''terser'']\<rparr>))
        (exampleCompilation ''old'') exampleCompiler)) ''sw.js'' = Some ''self.__WB_MANIFEST''
   \<and> warnings (compilationOf (handleMake (exampleHost [] None) exampleProcess
        (newInjectManifest
           (exampleConfig\<lparr>compileSrc := False, webpackCompilationPlugins := Some [Plugin ''terser'']\<rparr>))
        (exampleCompilation ''old'') exampleCompiler))
       = [WebpackError
            ''compileSrc is false, so the webpackCompilationPlugins option will be ignored.'']
   \<and> errors (compilationOf (handleMake (exampleHost [] None) exampleProcess
        (newInjectManifest
           (exampleConfig\<lparr>compileSrc := False, webpackCompilationPlugins := Some [Plugin ''terser'']\<rparr>))
        (exampleCompilation ''old'') exampleCompiler))
       = [WebpackError (conflictMessage ''sw.js'')]"
proof -
  let ?v = "exampleConfig\<lparr>compileSrc := False, webpackCompilationPlugins := Some [Plugin ''terser'']\<rparr>"
  have a: "validateWebpackInjectManifestOptions (exampleHost [] None) (arrays exampleProcess)
      (config (newInjectManifest ?v)) = Inr (arrays exampleProcess, ?v)"
    by (simp add: exampleHost_def newInjectManifest_def)
  have b: "\<not> compileSrc ?v" by simp
  have c: "readFileSync exampleCompiler (swSrc ?v) = Inr ''self.__WB_MANIFEST''"
    by (simp add: exampleCompiler_def exampleConfig_def)
  show ?thesis
    using a c copy_mode_emits_raw_source[OF a b c, of "exampleCompilation ''old''"]
    by (simp add: exampleHost_def exampleConfig_def exampleCompilation_def newInjectManifest_def
        emitConflicts_def)
qed

section \<open>The injection point check\<close>

lemma messages_differ: "cantFindMessage m \<noteq> multipleInstancesMessage m"
  by (simp add: cantFindMessage_def multipleInstancesMessage_def)

lemma addAssetsBeforeEntries_check:
  assumes "exclude (config this) = Some r"
    and "assets c (swDest (config this)) = Some t"
    and "injectionPoint (config this) = Some m"
  shows "addAssetsBeforeEntries h p this c =
     (case checkInjectionPoint (Some m) t of
        Some error \<Rightarrow>
          Inl (error, p\<lparr>arrays := (arrays p)(r := arrays p r @ [IsGeneratedAssetName])\<rparr>,
               fst (checkAlreadyCalled this c),
               (snd (checkAlreadyCalled this c))
                 \<lparr>fileDependencies := insert (upathResolve h (swSrc (config this)))
                    (fileDependencies (snd (checkAlreadyCalled this c)))\<rparr>)
      | None \<Rightarrow>
          Inr (p\<lparr>arrays := (arrays p)(r := arrays p r @ [IsGeneratedAssetName])\<rparr>,
               fst (checkAlreadyCalled this c),
               (snd (checkAlreadyCalled this c))
                 \<lparr>fileDependencies := insert (upathResolve h (swSrc (config this)))
                    (fileDependencies (snd (checkAlreadyCalled this c)))\<rparr>,
               t))"
proof -
  obtain this1 c1 where cc: "checkAlreadyCalled this c = (this1, c1)"
    by (cases "checkAlreadyCalled this c") auto
  have "config this1 = config this" using config_checkAlreadyCalled[of this c] cc by simp
  moreover have "assets c1 = assets c" using assets_checkAlreadyCalled[of this c] cc by simp
  ultimately show ?thesis
    using assms cc
    by (simp add: addAssetsBeforeEntries_def pushExclude_def Let_def split: option.splits)
qed

lemma outcomeOf_addAssets_Inl:
  "addAssetsBeforeEntries h p this c = Inl (e, st) \<Longrightarrow> outcomeOf (addAssets h p this c) = Rejected e"
  by (cases st) (auto simp: addAssets_def outcomeOf_def)

lemma two_matches_iff: "2 \<le> length (globalMatches m t) \<longleftrightarrow> twoDisjointOccurrences m t"
proof
  show "2 \<le> length (globalMatches m t) \<Longrightarrow> twoDisjointOccurrences m t"
    by (rule disjoint_if_two_matches)
next
  assume "twoDisjointOccurrences m t"
  then obtain i j where "j \<le> length t" "startsWith (drop i t) m" "startsWith (drop j t) m"
      "i + max 1 (length m) \<le> j"
    unfolding twoDisjointOccurrences_def by blast
  then show "2 \<le> length (globalMatches m t)" by (rule two_matches_if_disjoint)
qed

text \<open>
  C2, as the code has it. Let the call reach the check (the \<open>exclude\<close> array, the
  destination asset and the marker exist). The escaped marker denotes the marker as
  literal text. The call fails with the not-found error, whose message names the
  marker, exactly when the text holds no occurrence of the marker; with the
  multiple-instances error exactly when the text holds two occurrences that do not
  overlap; and it passes the check exactly when the marker occurs and no two of its
  occurrences are disjoint, in particular when it occurs exactly once. An error of the
  check rejects the call.
\<close>

theorem injection_point_check:
  assumes "exclude (config this) = Some r"
    and "assets c (swDest (config this)) = Some t"
    and "injectionPoint (config this) = Some m"
  shows "literalOfPattern (escapeRegExp m) = Some m
    \<and> ((\<exists>st. addAssetsBeforeEntries h p this c = Inl (Error (cantFindMessage m), st))
         \<longleftrightarrow> occurrences m t = [])
    \<and> ((\<exists>st. addAssetsBeforeEntries h p this c = Inl (Error (multipleInstancesMessage m), st))
         \<longleftrightarrow> twoDisjointOccurrences m t)
    \<and> ((\<exists>st. addAssetsBeforeEntries h p this c = Inr st)
         \<longleftrightarrow> occurrences m t \<noteq> [] \<and> \<not> twoDisjointOccurrences m t)
    \<and> (length (occurrences m t) = 1 \<longrightarrow> (\<exists>st. addAssetsBeforeEntries h p this c = Inr st))
    \<and> (\<forall>e st. addAssetsBeforeEntries h p this c = Inl (e, st)
          \<longrightarrow> outcomeOf (addAssets h p this c) = Rejected e)
    \<and> cantFindMessage m = ''Can't find '' @ m @ '' in your SW source.''
    \<and> multipleInstancesMessage m =
        ''Multiple instances of '' @ m @ '' were found in your SW source. Include it only once. ''
          @ ''For more info, see https://github.com/GoogleChrome/workbox/issues/2681''"
proof -
  note be = addAssetsBeforeEntries_check[OF assms, of h p]
  note chk = checkInjectionPoint_Some[of m t]
  consider (none) "globalMatches m t = []"
    | (one) "length (globalMatches m t) = 1"
    | (many) "2 \<le> length (globalMatches m t)"
    by (cases "globalMatches m t") (auto simp: Suc_le_eq)
  then have main:
    "((\<exists>st. addAssetsBeforeEntries h p this c = Inl (Error (cantFindMessage m), st))
         \<longleftrightarrow> occurrences m t = [])
    \<and> ((\<exists>st. addAssetsBeforeEntries h p this c = Inl (Error (multipleInstancesMessage m), st))
         \<longleftrightarrow> twoDisjointOccurrences m t)
    \<and> ((\<exists>st. addAssetsBeforeEntries h p this c = Inr st)
         \<longleftrightarrow> occurrences m t \<noteq> [] \<and> \<not> twoDisjointOccurrences m t)"
  proof cases
    case none
    then have "occurrences m t = []" by (simp add: globalMatches_empty_iff)
    moreover have "\<not> twoDisjointOccurrences m t"
      using none two_matches_iff[of m t] by simp
    ultimately show ?thesis
      using none by (simp add: be chk messages_differ)
  next
    case one
    then have "occurrences m t \<noteq> []"
      using globalMatches_empty_iff[of m t] by auto
    moreover have "\<not> twoDisjointOccurrences m t"
      using one two_matches_iff[of m t] by simp
    moreover have "globalMatches m t \<noteq> []" using one by auto
    ultimately show ?thesis
      using one by (simp add: be chk)
  next
    case many
    then have "occurrences m t \<noteq> []"
      using globalMatches_empty_iff[of m t] by auto
    moreover have "twoDisjointOccurrences m t"
      using many two_matches_iff[of m t] by simp
    moreover have "globalMatches m t \<noteq> []" "length (globalMatches m t) \<noteq> 1" using many by auto
    ultimately show ?thesis
      using messages_differ[of m] by (simp add: be chk) 
  qed
  have single: "length (occurrences m t) = 1 \<longrightarrow> (\<exists>st. addAssetsBeforeEntries h p this c = Inr st)"
  proof
    assume "length (occurrences m t) = 1"
    then have "length (globalMatches m t) = 1" by (rule one_occurrence_one_match)
    moreover then have "globalMatches m t \<noteq> []" by auto
    ultimately show "\<exists>st. addAssetsBeforeEntries h p this c = Inr st"
      by (simp add: be chk)
  qed
  have fatal: "\<forall>e st. addAssetsBeforeEntries h p this c = Inl (e, st)
          \<longrightarrow> outcomeOf (addAssets h p this c) = Rejected e"
    using outcomeOf_addAssets_Inl by blast
  have msgs: "cantFindMessage m = ''Can't find '' @ m @ '' in your SW source.''
    \<and> multipleInstancesMessage m =
        ''Multiple instances of '' @ m @ '' were found in your SW source. Include it only once. ''
          @ ''For more info, see https://github.com/GoogleChrome/workbox/issues/2681''"
    by (simp add: cantFindMessage_def multipleInstancesMessage_def)
  from literalOfPattern_escapeRegExp[of m] main single fatal msgs show ?thesis
    by (intro conjI) (erule conjunct1 conjunct2 | assumption | (drule conjunct2, erule conjunct1) | (drule conjunct2, erule conjunct2))+
qed

lemmas addAssets_defs =
  addAssets_def addAssetsAfterEntries_def addAssetsBeforeEntries_def checkAlreadyCalled_def pushExclude_def
  checkInjectionPoint_Some startsWith_def injectManifestString_def manifestStringOf_def
  rewritesQuotes_def evalCheapSourceMapAndMinimize_def replaceDoubleQuotes_def
  stringReplace_def searchValueString_def logInfo_def updateAsset_def
  outcomeOf_def processOf_def instanceOf_def compilationOf_def

lemma occurrences_marker_once:
  "occurrences ''self.__WB_MANIFEST'' ''self.__WB_MANIFEST'' = [0]"
  by (simp add: occurrences_Cons occurrences_Nil startsWith_def)

theorem injection_point_check_witness:
  "exclude (config (newInjectManifest exampleConfig)) = Some 0
   \<and> assets (exampleCompilation ''self.__WB_MANIFEST'')
        (swDest (config (newInjectManifest exampleConfig))) = Some ''self.__WB_MANIFEST''
   \<and> injectionPoint (config (newInjectManifest exampleConfig)) = Some ''self.__WB_MANIFEST''
   \<and> length (occurrences ''self.__WB_MANIFEST'' ''self.__WB_MANIFEST'') = 1
   \<and> \<not> twoDisjointOccurrences ''self.__WB_MANIFEST'' ''self.__WB_MANIFEST''
   \<and> (\<exists>st. addAssetsBeforeEntries (exampleHost [] None) exampleProcess
          (newInjectManifest exampleConfig) (exampleCompilation ''self.__WB_MANIFEST'') = Inr st)"
proof -
  have a: "exclude (config (newInjectManifest exampleConfig)) = Some 0"
    by (simp add: example_defs)
  have b: "assets (exampleCompilation ''self.__WB_MANIFEST'')
        (swDest (config (newInjectManifest exampleConfig))) = Some ''self.__WB_MANIFEST''"
    by (simp add: example_defs)
  have c: "injectionPoint (config (newInjectManifest exampleConfig)) = Some ''self.__WB_MANIFEST''"
    by (simp add: example_defs)
  have d: "length (occurrences ''self.__WB_MANIFEST'' ''self.__WB_MANIFEST'') = 1"
    by (simp add: occurrences_marker_once)
  from injection_point_check[OF a b c, of "exampleHost [] None" exampleProcess] d
  have "\<not> twoDisjointOccurrences ''self.__WB_MANIFEST'' ''self.__WB_MANIFEST''
     \<and> (\<exists>st. addAssetsBeforeEntries (exampleHost [] None) exampleProcess
          (newInjectManifest exampleConfig) (exampleCompilation ''self.__WB_MANIFEST'') = Inr st)"
    by blast
  with a b c d show ?thesis by (intro conjI) (erule conjunct1 conjunct2 | assumption)+
qed

text \<open>
  C2 as stated fails: the text \<open>aaa\<close> holds the marker \<open>aa\<close> twice (at 0 and at 1), the
  global match finds it once, and the call resolves.
\<close>

theorem overlapping_occurrences_pass_the_check:
  "occurrences ''aa'' ''aaa'' = [0, 1]
   \<and> outcomeOf (addAssets (exampleHost [] None) exampleProcess
        (newInjectManifest (exampleConfig\<lparr>injectionPoint := Some ''aa''\<rparr>))
        (exampleCompilation ''aaa'')) = Resolved
   \<and> assets (compilationOf (addAssets (exampleHost [] None) exampleProcess
        (newInjectManifest (exampleConfig\<lparr>injectionPoint := Some ''aa''\<rparr>))
        (exampleCompilation ''aaa''))) ''sw.js'' = Some ''[]a''"
proof -
  have "occurrences ''aa'' ''aaa'' = [0, 1]"
    by (simp add: occurrences_Cons occurrences_Nil startsWith_def)
  moreover have "addAssets (exampleHost [] None) exampleProcess
        (newInjectManifest (exampleConfig\<lparr>injectionPoint := Some ''aa''\<rparr>))
        (exampleCompilation ''aaa'')
      = (Resolved,
         \<lparr>generatedAssetNames = {}, arrays = (\<lambda>r. [])(0 := [IsGeneratedAssetName])\<rparr>,
         \<lparr>config = exampleConfig\<lparr>injectionPoint := Some ''aa''\<rparr>, alreadyCalled = True\<rparr>,
         \<lparr>warnings = [], errors = [], assets = [''sw.js'' \<mapsto> ''[]a''],
          fileDependencies = {''/project/src/sw.js''}, options = None, infoLog = None\<rparr>)"
    by (simp add: addAssets_defs example_defs stringify_defs dollar_def backtick_def)
  ultimately show ?thesis
    by (simp add: outcomeOf_def compilationOf_def)
qed

section \<open>The splice and the stored configuration\<close>

lemma example_check_passes:
  "checkInjectionPoint (Some ''self.__WB_MANIFEST'') ''self.__WB_MANIFEST'' = None"
  by (simp add: checkInjectionPoint_Some startsWith_def)

lemma stringReplace_without_dollar:
  assumes "indexOf t m = Some i" and "dollar \<notin> set r"
  shows "stringReplace t m r = take i t @ r @ drop (i + length m) t"
    and "length (stringReplace t m r) = length t - length m + length r"
    and "startsWith (drop i (stringReplace t m r)) r"
proof -
  from indexOf_Some[OF assms(1)] have i: "i \<le> length t" and sw: "startsWith (drop i t) m"
    by auto
  have lm: "length m \<le> length t - i"
    using startsWith_length[OF sw] by simp
  show eq: "stringReplace t m r = take i t @ r @ drop (i + length m) t"
    using assms by (simp add: stringReplace_def getSubstitution_no_dollar)
  show "length (stringReplace t m r) = length t - length m + length r"
    using i lm by (simp add: eq)
  show "startsWith (drop i (stringReplace t m r)) r"
    using i by (simp add: eq startsWith_def)
qed


lemma indexOf_if_check_passes:
  assumes "checkInjectionPoint (Some m) t = None"
  shows "\<exists>i. indexOf t m = Some i"
proof -
  have "globalMatches m t \<noteq> []"
    using assms by (auto simp: checkInjectionPoint_Some split: if_splits)
  then have "occurrences m t \<noteq> []" by (simp add: globalMatches_empty_iff)
  then obtain j where "j \<le> length t" "startsWith (drop j t) m"
    by (auto simp: occurrences_empty_iff)
  then have "indexOf t m \<noteq> None" using indexOf_None[of t m j] by auto
  then show ?thesis by auto
qed


lemma addAssets_splices_verbatim_without_dollar:
  assumes "addAssetsBeforeEntries h p this c = Inr (p1, this1, c1, t)"
    and "getManifestEntriesFromCompilation h p1 c1 (config this1) = (pushed, Inr (sz, es))"
    and "getSourcemapAssetName h (c1\<lparr>warnings := warnings c1 @ pushed\<rparr>) t
           (swDest (config this1)) = None"
    and "injectionPoint (config this) = Some m"
    and "dollar \<notin> set (manifestStringOf h this1 (c1\<lparr>warnings := warnings c1 @ pushed\<rparr>) es)"
  shows "\<exists>i. indexOf t m = Some i
    \<and> assets (compilationOf (addAssets h p this c)) (swDest (config this))
        = Some (take i t
                @ manifestStringOf h this1 (c1\<lparr>warnings := warnings c1 @ pushed\<rparr>) es
                @ drop (i + length m) t)"
proof -
  have cfg: "config this1 = config this"
    using addAssetsBeforeEntries_Inr(1)[OF assms(1)] by (simp add: config_checkAlreadyCalled)
  have "checkInjectionPoint (Some m) t = None"
    using addAssetsBeforeEntries_Inr(5)[OF assms(1)] assms(4) by simp
  then obtain i where i: "indexOf t m = Some i"
    using indexOf_if_check_passes by blast
  have "assets (compilationOf (addAssets h p this c)) (swDest (config this))
      = Some (stringReplace t m
                (manifestStringOf h this1 (c1\<lparr>warnings := warnings c1 @ pushed\<rparr>) es))"
    using assms(3,4) cfg
    by (simp add: addAssets_Inr[OF assms(1,2)] addAssetsAfterEntries_def injectManifestString_def
        searchValueString_def compilationOf_def assets_logInfo updateAsset_def)
  then show ?thesis
    using i stringReplace_without_dollar(1)[OF i assms(5)] by simp
qed

text \<open>
  C1 fails on the code. \<open>String.prototype.replace\<close> reads the serialized manifest as a
  replacement template. With the entry \<open>a$$b.js\<close> the manifest string holds \<open>$$\<close>,
  the text spliced into the asset holds \<open>$\<close>, and the result is one character shorter
  than the length of the text minus the marker plus the replacement.
\<close>

theorem dollar_in_manifest_is_expanded:
  "manifestStringOf (exampleHost [\<lparr>url = ''a$$b.js'', revision = None\<rparr>] None)
      (newInjectManifest exampleConfig) (exampleCompilation ''self.__WB_MANIFEST'')
      [\<lparr>url = ''a$$b.js'', revision = None\<rparr>]
     = ''[{'revision':null,'url':'a$$b.js'}]''
   \<and> assets (compilationOf (addAssets (exampleHost [\<lparr>url = ''a$$b.js'', revision = None\<rparr>] None)
        exampleProcess (newInjectManifest exampleConfig)
        (exampleCompilation ''self.__WB_MANIFEST''))) ''sw.js''
     = Some ''[{'revision':null,'url':'a$b.js'}]''
   \<and> length ''[{'revision':null,'url':'a$b.js'}]''
       \<noteq> length ''self.__WB_MANIFEST'' - length ''self.__WB_MANIFEST''
           + length ''[{'revision':null,'url':'a$$b.js'}]''"
  by (simp add: addAssets_defs example_defs stringify_defs dollar_def backtick_def)

lemma addAssetsBeforeEntries_Inl_arrays:
  assumes "addAssetsBeforeEntries h p this c = Inl (e, p1, this1, c1)"
  shows "arrays p1 =
     (case exclude (config this) of
        None \<Rightarrow> arrays p
      | Some r \<Rightarrow> (arrays p)(r := arrays p r @ [IsGeneratedAssetName]))"
proof -
  obtain this0 c0 where cc: "checkAlreadyCalled this c = (this0, c0)"
    by (cases "checkAlreadyCalled this c") auto
  have "config this0 = config this" using config_checkAlreadyCalled[of this c] cc by simp
  then show ?thesis
    using assms cc
    by (auto simp: addAssetsBeforeEntries_def pushExclude_def Let_def
        split: sum.splits option.splits)
qed


lemma arrays_addAssets:
  "arrays (processOf (addAssets h p this c)) =
     (case exclude (config this) of
        None \<Rightarrow> arrays p
      | Some r \<Rightarrow> (arrays p)(r := arrays p r @ [IsGeneratedAssetName]))"
proof (cases "addAssetsBeforeEntries h p this c")
  case (Inl a)
  obtain e p1 this1 c1 where a: "a = (e, p1, this1, c1)" by (cases a) auto
  show ?thesis
    using Inl a addAssetsBeforeEntries_Inl_arrays[of h p this c e p1 this1 c1]
    by (simp add: addAssets_Inl processOf_def)
next
  case (Inr b)
  obtain p1 this1 c1 t where b: "b = (p1, this1, c1, t)" by (cases b) auto
  obtain pushed result where g:
    "getManifestEntriesFromCompilation h p1 c1 (config this1) = (pushed, result)"
    by (cases "getManifestEntriesFromCompilation h p1 c1 (config this1)") auto
  have be: "addAssetsBeforeEntries h p this c = Inr (p1, this1, c1, t)" using Inr b by simp
  have a1: "arrays p1 =
     (case exclude (config this) of
        None \<Rightarrow> arrays p
      | Some r \<Rightarrow> (arrays p)(r := arrays p r @ [IsGeneratedAssetName]))"
    using addAssetsBeforeEntries_Inr(3)[OF be] by auto
  show ?thesis
  proof (cases result)
    case (Inl e)
    then show ?thesis using addAssets_Inr[OF be g] a1 by (simp add: processOf_def)
  next
    case (Inr se)
    obtain sz es where se: "se = (sz, es)" by (cases se) auto
    have "addAssets h p this c
        = addAssetsAfterEntries h p1 this1 (c1\<lparr>warnings := warnings c1 @ pushed\<rparr>) t sz es"
      using addAssets_Inr[OF be g] Inr se by simp
    then show ?thesis
      using addAssetsAfterEntries_frame[of h p1 this1 "c1\<lparr>warnings := warnings c1 @ pushed\<rparr>" t sz es]
        a1 by simp
  qed
qed

lemma config_addAssets: "config (instanceOf (addAssets h p this c)) = config this"
  by (simp add: instanceOf_addAssets config_checkAlreadyCalled)

lemma config_handleMake:
  assumes "validateWebpackInjectManifestOptions h (arrays p) (config this) = Inr (store, v)"
  shows "config (instanceOf (handleMake h p this c k))
    = v\<lparr>swDest := relativeToOutputPath h c (swDest v)\<rparr>"
  using assms
  by (auto simp: handleMake_def instanceOf_def Let_def split: sum.splits prod.splits)

text \<open>
  C9, as the code has it. \<open>addAssets\<close> never assigns \<open>this.config\<close> or a field of it:
  after the call the stored configuration has the field values it had before, the
  reference to the \<open>exclude\<close> array among them, and every array other than the one
  that reference names is unchanged. \<open>handleMake\<close> stores the validated configuration
  and then sets its \<open>swDest\<close> to the destination relative to the output path.
\<close>

theorem addAssets_keeps_the_fields_of_config:
  "config (instanceOf (addAssets h p this c)) = config this
   \<and> (\<forall>r. exclude (config this) \<noteq> Some r
         \<longrightarrow> arrays (processOf (addAssets h p this c)) r = arrays p r)
   \<and> (\<forall>store v. validateWebpackInjectManifestOptions h (arrays p) (config this) = Inr (store, v)
         \<longrightarrow> config (instanceOf (handleMake h p this c k))
             = v\<lparr>swDest := relativeToOutputPath h c (swDest v)\<rparr>)"
proof -
  have "\<forall>r. exclude (config this) \<noteq> Some r
         \<longrightarrow> arrays (processOf (addAssets h p this c)) r = arrays p r"
    by (simp add: arrays_addAssets split: option.splits)
  then show ?thesis
    using config_addAssets[of h p this c] config_handleMake[of h p this _ _ c k] by blast
qed

theorem addAssets_keeps_the_fields_of_config_witness:
  "validateWebpackInjectManifestOptions
      ((exampleHost [] None)\<lparr>relativeToOutputPath := \<lambda>c dest. ''js/'' @ dest\<rparr>)
      (arrays exampleProcess) (config (newInjectManifest exampleConfig))
     = Inr (arrays exampleProcess, exampleConfig)
   \<and> config (instanceOf (handleMake
        ((exampleHost [] None)\<lparr>relativeToOutputPath := \<lambda>c dest. ''js/'' @ dest\<rparr>)
        exampleProcess (newInjectManifest exampleConfig)
        (exampleCompilation ''self.__WB_MANIFEST'') exampleCompiler))
     = exampleConfig\<lparr>swDest := ''js/sw.js''\<rparr>
   \<and> config (instanceOf (addAssets
        ((exampleHost [] None)\<lparr>relativeToOutputPath := \<lambda>c dest. ''js/'' @ dest\<rparr>)
        exampleProcess (newInjectManifest exampleConfig)
        (exampleCompilation ''self.__WB_MANIFEST'')))
     = exampleConfig
   \<and> exclude (config (newInjectManifest exampleConfig)) \<noteq> Some 1
   \<and> arrays (processOf (addAssets
        ((exampleHost [] None)\<lparr>relativeToOutputPath := \<lambda>c dest. ''js/'' @ dest\<rparr>)
        exampleProcess (newInjectManifest exampleConfig)
        (exampleCompilation ''self.__WB_MANIFEST''))) 1
     = []"
proof -
  let ?h = "(exampleHost [] None)\<lparr>relativeToOutputPath := \<lambda>c dest. ''js/'' @ dest\<rparr>"
  have v: "validateWebpackInjectManifestOptions ?h (arrays exampleProcess)
      (config (newInjectManifest exampleConfig)) = Inr (arrays exampleProcess, exampleConfig)"
    by (simp add: exampleHost_def newInjectManifest_def)
  have x: "exclude (config (newInjectManifest exampleConfig)) \<noteq> Some 1"
    by (simp add: example_defs)
  from addAssets_keeps_the_fields_of_config[of ?h exampleProcess "newInjectManifest exampleConfig"
      "exampleCompilation ''self.__WB_MANIFEST''" exampleCompiler]
  have a: "config (instanceOf (addAssets ?h exampleProcess (newInjectManifest exampleConfig)
        (exampleCompilation ''self.__WB_MANIFEST''))) = config (newInjectManifest exampleConfig)"
    and b: "arrays (processOf (addAssets ?h exampleProcess (newInjectManifest exampleConfig)
        (exampleCompilation ''self.__WB_MANIFEST''))) 1 = arrays exampleProcess 1"
    and c: "config (instanceOf (handleMake ?h exampleProcess (newInjectManifest exampleConfig)
        (exampleCompilation ''self.__WB_MANIFEST'') exampleCompiler))
      = exampleConfig\<lparr>swDest := relativeToOutputPath ?h (exampleCompilation ''self.__WB_MANIFEST'')
          (swDest exampleConfig)\<rparr>"
    using v x by blast+
  from v x a b c show ?thesis
    by (simp add: exampleHost_def exampleConfig_def exampleProcess_def newInjectManifest_def)
qed

lemma arrays_exampleWatch:
  "arrays (processOf (exampleWatch n)) 0 = replicate (Suc n) IsGeneratedAssetName"
proof (induction n)
  case 0
  then show ?case by (simp add: arrays_addAssets example_defs)
next
  case (Suc n)
  then show ?case
    by (simp add: arrays_addAssets config_exampleWatch exampleConfig_def replicate_append_same)
qed

text \<open>
  C9 as stated fails. After validation \<open>handleMake\<close> changes \<open>swDest\<close> of the stored
  configuration. And the copy made by \<open>addAssets\<close> shares the \<open>exclude\<close> array with
  \<open>this.config\<close>: the array is empty at first, holds one closure after the first call
  and two after the second.
\<close>

theorem exclude_array_grows_with_every_call:
  "config (instanceOf (handleMake
        ((exampleHost [] None)\<lparr>relativeToOutputPath := \<lambda>c dest. ''js/'' @ dest\<rparr>)
        exampleProcess (newInjectManifest exampleConfig)
        (exampleCompilation ''self.__WB_MANIFEST'') exampleCompiler))
     \<noteq> exampleConfig
   \<and> exclude (config (newInjectManifest exampleConfig)) = Some 0
   \<and> arrays exampleProcess 0 = []
   \<and> outcomeOf (exampleWatch 0) = Resolved
   \<and> exclude (config (instanceOf (exampleWatch 0))) = Some 0
   \<and> arrays (processOf (exampleWatch 0)) 0 = [IsGeneratedAssetName]
   \<and> outcomeOf (exampleWatch (Suc 0)) = Resolved
   \<and> exclude (config (instanceOf (exampleWatch (Suc 0)))) = Some 0
   \<and> arrays (processOf (exampleWatch (Suc 0))) 0 = [IsGeneratedAssetName, IsGeneratedAssetName]"
proof -
  let ?h = "(exampleHost [] None)\<lparr>relativeToOutputPath := \<lambda>c dest. ''js/'' @ dest\<rparr>"
  have v: "validateWebpackInjectManifestOptions ?h (arrays exampleProcess)
      (config (newInjectManifest exampleConfig)) = Inr (arrays exampleProcess, exampleConfig)"
    by (simp add: exampleHost_def newInjectManifest_def)
  have "exampleConfig\<lparr>swDest := relativeToOutputPath ?h
        (exampleCompilation ''self.__WB_MANIFEST'') (swDest exampleConfig)\<rparr> \<noteq> exampleConfig"
    by (simp add: exampleHost_def exampleConfig_def)
  then have "config (instanceOf (handleMake ?h exampleProcess (newInjectManifest exampleConfig)
        (exampleCompilation ''self.__WB_MANIFEST'') exampleCompiler)) \<noteq> exampleConfig"
    unfolding config_handleMake[OF v] .
  moreover have "exclude (config (newInjectManifest exampleConfig)) = Some 0"
    by (simp add: example_defs)
  moreover have "arrays exampleProcess 0 = []"
    by (simp add: exampleProcess_def)
  moreover have "exclude (config (instanceOf (exampleWatch n))) = Some 0" for n
    by (simp add: config_exampleWatch exampleConfig_def)
  moreover have "arrays (processOf (exampleWatch 0)) 0 = [IsGeneratedAssetName]"
    using arrays_exampleWatch[of 0] by simp
  moreover have "arrays (processOf (exampleWatch (Suc 0))) 0
      = [IsGeneratedAssetName, IsGeneratedAssetName]"
    using arrays_exampleWatch[of "Suc 0"] by simp
  ultimately show ?thesis
    using outcomeOf_exampleWatch by blast
qed

section \<open>The serialized manifest\<close>

lemma dquote_replaceDoubleQuotes: "dquote \<notin> set (replaceDoubleQuotes s)"
  by (auto simp: replaceDoubleQuotes_def dquote_def squote_def)

lemma evalCheapSourceMapAndMinimize_iff:
  "evalCheapSourceMapAndMinimize c \<longleftrightarrow>
     (\<exists>opts opt. options c = Some opts \<and> devtool opts = Some ''eval-cheap-source-map''
        \<and> optimization opts = Some opt \<and> minimize opt)"
  by (auto simp: evalCheapSourceMapAndMinimize_def split: option.splits)

lemma options_checkAlreadyCalled: "options (snd (checkAlreadyCalled this c)) = options c"
  by (simp add: checkAlreadyCalled_def)

lemma manifestStringOf_at_call:
  assumes "addAssetsBeforeEntries h p this c = Inr (p1, this1, c1, t)"
  shows "manifestStringOf h this1 (c1\<lparr>warnings := w\<rparr>) es =
     (if compileSrc (config this)
         \<and> \<not> (\<exists>opts opt. options c = Some opts \<and> devtool opts = Some ''eval-cheap-source-map''
                \<and> optimization opts = Some opt \<and> minimize opt)
      then map (\<lambda>x. if x = dquote then squote else x) (stringify h es)
      else stringify h es)"
proof -
  have "config this1 = config this"
    using addAssetsBeforeEntries_Inr(1)[OF assms] by (simp add: config_checkAlreadyCalled)
  moreover have "options (c1\<lparr>warnings := w\<rparr>) = options c"
    using addAssetsBeforeEntries_Inr(2)[OF assms] by (simp add: options_checkAlreadyCalled)
  ultimately have r: "rewritesQuotes this1 (c1\<lparr>warnings := w\<rparr>) \<longleftrightarrow>
      compileSrc (config this)
      \<and> \<not> (\<exists>opts opt. options c = Some opts \<and> devtool opts = Some ''eval-cheap-source-map''
              \<and> optimization opts = Some opt \<and> minimize opt)"
    by (simp only: rewritesQuotes_def evalCheapSourceMapAndMinimize_iff)
  show ?thesis
    unfolding manifestStringOf_def replaceDoubleQuotes_def r ..
qed

text \<open>
  C3, as the code has it. Let a call of \<open>addAssets\<close> reach the entry computation and let
  it return the entries. The manifest string of the call is the serialization with
  every double quote rewritten to a single quote, so without a double quote, when
  \<open>compileSrc\<close> is true and the options are not \<open>devtool === 'eval-cheap-source-map'\<close>
  together with \<open>optimization.minimize\<close>; otherwise it is the serialization unchanged.
  That string is what \<open>addAssets\<close> injects: the call is the injection of that string,
  and without a source map the destination asset becomes the text with the marker
  replaced by it.
\<close>

theorem manifestString_quotes:
  assumes "addAssetsBeforeEntries h p this c = Inr (p1, this1, c1, t)"
    and "getManifestEntriesFromCompilation h p1 c1 (config this1) = (pushed, Inr (sz, es))"
  shows "let rewrites =
           (compileSrc (config this)
            \<and> \<not> (\<exists>opts opt. options c = Some opts
                    \<and> devtool opts = Some ''eval-cheap-source-map''
                    \<and> optimization opts = Some opt \<and> minimize opt));
         manifestString =
           (if rewrites then map (\<lambda>x. if x = dquote then squote else x) (stringify h es)
            else stringify h es);
         c2 = c1\<lparr>warnings := warnings c1 @ pushed\<rparr>
     in (rewrites \<longrightarrow> dquote \<notin> set manifestString)
        \<and> addAssets h p this c =
            (case injectManifestString h p1 c2 (config this1) t manifestString of
               (Rejected error, p2, c3) \<Rightarrow> (Rejected error, p2, this1, c3)
             | (Resolved, p2, c3) \<Rightarrow>
                 (Resolved, p2, this1, logInfo c3 (swDest (config this1)) (length es) sz))
        \<and> (getSourcemapAssetName h c2 t (swDest (config this1)) = None
             \<longrightarrow> assets (compilationOf (addAssets h p this c)) (swDest (config this))
                 = Some (stringReplace t (searchValueString (injectionPoint (config this)))
                           manifestString))"
proof -
  let ?c2 = "c1\<lparr>warnings := warnings c1 @ pushed\<rparr>"
  let ?ms = "manifestStringOf h this1 ?c2 es"
  note ms = manifestStringOf_at_call[OF assms(1), of "warnings c1 @ pushed" es]
  have cfg: "config this1 = config this"
    using addAssetsBeforeEntries_Inr(1)[OF assms(1)] by (simp add: config_checkAlreadyCalled)
  have a: "addAssets h p this c =
      (case injectManifestString h p1 ?c2 (config this1) t ?ms of
         (Rejected error, p2, c3) \<Rightarrow> (Rejected error, p2, this1, c3)
       | (Resolved, p2, c3) \<Rightarrow>
           (Resolved, p2, this1, logInfo c3 (swDest (config this1)) (length es) sz))"
    by (simp add: addAssets_Inr[OF assms] addAssetsAfterEntries_def)
  have b: "getSourcemapAssetName h ?c2 t (swDest (config this1)) = None
      \<Longrightarrow> assets (compilationOf (addAssets h p this c)) (swDest (config this))
          = Some (stringReplace t (searchValueString (injectionPoint (config this))) ?ms)"
    using cfg
    by (simp add: a injectManifestString_def compilationOf_def assets_logInfo updateAsset_def)
  have d: "dquote \<notin> set (map (\<lambda>x. if x = dquote then squote else x) (stringify h es))"
    using dquote_replaceDoubleQuotes[of "stringify h es"] by (simp add: replaceDoubleQuotes_def)
  show ?thesis
    unfolding Let_def using a b d unfolding ms by auto
qed

theorem manifestString_quotes_witness:
  "(\<exists>p1 this1 c1.
      addAssetsBeforeEntries
        (exampleHost [\<lparr>url = ''a.js'', revision = Some ''123''\<rparr>, \<lparr>url = ''b.js'', revision = None\<rparr>] None)
        exampleProcess (newInjectManifest exampleConfig) (exampleCompilation ''self.__WB_MANIFEST'')
        = Inr (p1, this1, c1, ''self.__WB_MANIFEST'')
      \<and> getManifestEntriesFromCompilation
          (exampleHost [\<lparr>url = ''a.js'', revision = Some ''123''\<rparr>, \<lparr>url = ''b.js'', revision = None\<rparr>] None)
          p1 c1 (config this1)
        = ([], Inr (0, [\<lparr>url = ''a.js'', revision = Some ''123''\<rparr>, \<lparr>url = ''b.js'', revision = None\<rparr>])))
   \<and> compileSrc (config (newInjectManifest exampleConfig))
   \<and> options (exampleCompilation ''self.__WB_MANIFEST'') = None
   \<and> assets (compilationOf (addAssets
        (exampleHost [\<lparr>url = ''a.js'', revision = Some ''123''\<rparr>, \<lparr>url = ''b.js'', revision = None\<rparr>] None)
        exampleProcess (newInjectManifest exampleConfig) (exampleCompilation ''self.__WB_MANIFEST'')))
        ''sw.js''
     = Some ''[{'revision':'123','url':'a.js'},{'revision':null,'url':'b.js'}]''"
proof -
  let ?es = "[\<lparr>url = ''a.js'', revision = Some ''123''\<rparr>, \<lparr>url = ''b.js'', revision = None\<rparr>]"
  let ?h = "exampleHost ?es None"
  let ?inst = "newInjectManifest exampleConfig"
  let ?c = "exampleCompilation ''self.__WB_MANIFEST''"
  have e: "exclude (config ?inst) = Some 0"
    "assets ?c (swDest (config ?inst)) = Some ''self.__WB_MANIFEST''"
    "injectionPoint (config ?inst) = Some ''self.__WB_MANIFEST''"
    by (simp_all add: example_defs)
  obtain p1 this1 c1 where be:
    "addAssetsBeforeEntries ?h exampleProcess ?inst ?c = Inr (p1, this1, c1, ''self.__WB_MANIFEST'')"
    using addAssetsBeforeEntries_check[OF e, of ?h exampleProcess] by (simp add: example_check_passes)
  have g: "getManifestEntriesFromCompilation ?h p1 c1 (config this1) = ([], Inr (0, ?es))"
    by (simp add: exampleHost_def)
  have o: "compileSrc (config ?inst)" "options ?c = None" "swDest (config ?inst) = ''sw.js''"
    by (simp_all add: example_defs)
  have s: "stringify ?h ?es = stringifyEntries ?es"
    "getSourcemapAssetName ?h x y z = None" for x y z
    by (simp_all add: exampleHost_def)
  have r: "stringReplace ''self.__WB_MANIFEST'' ''self.__WB_MANIFEST''
        ''[{'revision':'123','url':'a.js'},{'revision':null,'url':'b.js'}]''
      = ''[{'revision':'123','url':'a.js'},{'revision':null,'url':'b.js'}]''"
    by (simp add: stringReplace_def startsWith_def dollar_def)
  have th: "assets (compilationOf (addAssets ?h exampleProcess ?inst ?c)) (swDest (config ?inst))
     = Some (stringReplace ''self.__WB_MANIFEST'' (searchValueString (injectionPoint (config ?inst)))
         (if compileSrc (config ?inst)
             \<and> \<not> (\<exists>opts opt. options ?c = Some opts
                    \<and> devtool opts = Some ''eval-cheap-source-map''
                    \<and> optimization opts = Some opt \<and> minimize opt)
          then map (\<lambda>x. if x = dquote then squote else x) (stringify ?h ?es)
          else stringify ?h ?es))"
    by (rule manifestString_quotes[OF be g, unfolded Let_def, THEN conjunct2, THEN conjunct2,
          THEN mp, OF s(2)])
  have m: "map (\<lambda>x. if x = dquote then squote else x) (stringifyEntries ?es)
      = ''[{'revision':'123','url':'a.js'},{'revision':null,'url':'b.js'}]''"
    by (simp add: stringify_example dquote_def squote_def)
  have "assets (compilationOf (addAssets ?h exampleProcess ?inst ?c)) ''sw.js''
     = Some ''[{'revision':'123','url':'a.js'},{'revision':null,'url':'b.js'}]''"
    using th by (simp add: o e(3) s(1) m searchValueString_def r)
  with be g o show ?thesis by blast
qed

text \<open>
  C3 as stated fails: with \<open>compileSrc\<close> false and no entries the serialization is
  \<open>[]\<close>, which is spliced unchanged and holds no double quote.
\<close>

theorem empty_manifest_has_no_double_quote:
  "compileSrc (config (newInjectManifest (exampleConfig\<lparr>compileSrc := False\<rparr>))) = False
   \<and> stringify (exampleHost [] None) [] = ''[]''
   \<and> dquote \<notin> set (stringify (exampleHost [] None) [])
   \<and> assets (compilationOf (addAssets (exampleHost [] None) exampleProcess
        (newInjectManifest (exampleConfig\<lparr>compileSrc := False\<rparr>))
        (exampleCompilation ''self.__WB_MANIFEST''))) ''sw.js''
     = Some ''[]''"
  by (simp add: addAssets_defs example_defs stringify_defs dollar_def backtick_def)

section \<open>The set of generated asset names\<close>




lemma addAssets_registers_sourcemap:
  assumes "addAssetsBeforeEntries h p this c = Inr (p1, this1, c1, t)"
    and "getManifestEntriesFromCompilation h p1 c1 (config this1) = (pushed, Inr (sz, es))"
    and "getSourcemapAssetName h (c1\<lparr>warnings := warnings c1 @ pushed\<rparr>) t
           (swDest (config this1)) = Some sm"
  shows "sm \<in> generatedAssetNames (processOf (addAssets h p this c))"
proof -
  let ?c2 = "c1\<lparr>warnings := warnings c1 @ pushed\<rparr>"
  obtain out p2 c3 where ims:
    "injectManifestString h p1 ?c2 (config this1) t (manifestStringOf h this1 ?c2 es) = (out, p2, c3)"
    by (cases "injectManifestString h p1 ?c2 (config this1) t (manifestStringOf h this1 ?c2 es)") auto
  have "sm \<in> generatedAssetNames p2"
    using ims assms(3)
    by (auto simp: injectManifestString_def Let_def split: option.splits sum.splits)
  moreover have "processOf (addAssets h p this c) = p2"
    using ims
    by (cases out) (simp_all add: addAssets_Inr[OF assms(1,2)] addAssetsAfterEntries_def processOf_def)
  ultimately show ?thesis by simp
qed


end
